theory Spec2Isabelle
  imports Complex_Main
begin

section \<open>JavaScript values as the client sees them\<close>

text \<open>
  Every inbound frame goes through \<^verbatim>\<open>JSON.parse\<close>; the handlers then read properties of
  the parsed value.  A parsed value is null, a boolean, a number, a string, an array or an
  object; reading an absent property gives \<^verbatim>\<open>undefined\<close>.  Numbers are modelled as exact
  reals (IEEE-754 rounding, NaN and the infinities are outside the model).  An object is the
  list of its own properties in insertion order, keys distinct.
\<close>

datatype jsval =
    JUndefined
  | JNull
  | JBool bool
  | JNum real
  | JStr string
  | JArr "jsval list"
  | JObj "(string \<times> jsval) list"

text \<open>JavaScript truthiness (\<^verbatim>\<open>if (v)\<close>, \<^verbatim>\<open>!v\<close>, \<^verbatim>\<open>a && b\<close>, \<^verbatim>\<open>a || b\<close>).\<close>

fun truthy :: "jsval \<Rightarrow> bool" where
  "truthy JUndefined = False"
| "truthy JNull = False"
| "truthy (JBool b) = b"
| "truthy (JNum r) = (r \<noteq> 0)"
| "truthy (JStr s) = (s \<noteq> [])"
| "truthy (JArr xs) = True"
| "truthy (JObj kvs) = True"

text \<open>
  Property read \<^verbatim>\<open>v.k\<close> for the property names the handlers use (\<^verbatim>\<open>type\<close>, \<^verbatim>\<open>nodes\<close>,
  \<^verbatim>\<open>mission\<close>, \<^verbatim>\<open>node_id\<close>, \<^verbatim>\<open>pos\<close>, \<^verbatim>\<open>lat\<close>, \<^verbatim>\<open>lon\<close>, \<^verbatim>\<open>x\<close>, \<^verbatim>\<open>y\<close>, \<^verbatim>\<open>base\<close>): none of them
  is a built-in property of a primitive or of an array, so only an object can have one.  On
  \<^verbatim>\<open>null\<close> a plain read throws; every read of the handlers is either guarded by a truthiness
  test or written \<^verbatim>\<open>?.\<close>, except the one in \<^verbatim>\<open>setSnapshot\<close>, which is modelled with its
  exception.
\<close>

fun get :: "jsval \<Rightarrow> string \<Rightarrow> jsval" where
  "get (JObj kvs) k = (case map_of kvs k of Some v \<Rightarrow> v | None \<Rightarrow> JUndefined)"
| "get _ k = JUndefined"

fun isNumber :: "jsval \<Rightarrow> bool" where
  "isNumber (JNum r) = True"
| "isNumber _ = False"

fun num :: "jsval \<Rightarrow> real" where
  "num (JNum r) = r"
| "num _ = 0"

fun isArray :: "jsval \<Rightarrow> bool" where
  "isArray (JArr xs) = True"
| "isArray _ = False"

fun elems :: "jsval \<Rightarrow> jsval list" where
  "elems (JArr xs) = xs"
| "elems _ = []"

subsection \<open>The built-in Map\<close>

text \<open>
  A \<^verbatim>\<open>Map\<close> keeps its entries in insertion order and compares keys by SameValueZero:
  primitives by value, arrays and objects by reference.  Every key the handlers pass to a
  \<^verbatim>\<open>Map\<close> is read from a freshly parsed frame, so a key that is an array or an object is a new
  reference and equals no key stored before.
\<close>

fun is_ref :: "jsval \<Rightarrow> bool" where
  "is_ref (JArr xs) = True"
| "is_ref (JObj kvs) = True"
| "is_ref _ = False"

definition same_key :: "jsval \<Rightarrow> jsval \<Rightarrow> bool" where
  "same_key stored k = (\<not> is_ref k \<and> stored = k)"

type_synonym 'v jsmap = "(jsval \<times> 'v) list"

fun map_get :: "'v jsmap \<Rightarrow> jsval \<Rightarrow> 'v option" where
  "map_get [] k = None"
| "map_get ((k', v) # m) k = (if same_key k' k then Some v else map_get m k)"

fun map_set :: "'v jsmap \<Rightarrow> jsval \<Rightarrow> 'v \<Rightarrow> 'v jsmap" where
  "map_set [] k v = [(k, v)]"
| "map_set ((k', v') # m) k v =
     (if same_key k' k then (k', v) # m else (k', v') # map_set m k v)"

definition map_keys :: "'v jsmap \<Rightarrow> jsval list" where
  "map_keys m = map fst m"

definition map_values :: "'v jsmap \<Rightarrow> 'v list" where
  "map_values m = map snd m"

section \<open>The map client (fm-map.js)\<close>

type_synonym latlng = "real \<times> real"

record fm_state =
  anchorLat :: real
  anchorLon :: real
  drones :: "jsval jsmap"
  trails :: "latlng list jsmap"
  selectedNodeId :: jsval

text \<open>
  The Leaflet layer objects (the maps \<^verbatim>\<open>markers\<close> and \<^verbatim>\<open>polylines\<close>, the mission circles, the
  HUD elements) are written by the handlers and never read back into the fields above; they
  are left out.
\<close>

definition fm_init :: fm_state where
  "fm_init = \<lparr> anchorLat = 39.9334, anchorLon = 32.8597, drones = [], trails = [],
               selectedNodeId = JNull \<rparr>"

subsection \<open>Coordinate projector\<close>

text \<open>
  Over the reals the divisor of the longitude term is zero when the anchor latitude is an odd
  multiple of 90 degrees, and HOL's division then yields 0; the statements about concrete
  anchors below show the divisor positive.
\<close>

definition xyToLatLon :: "fm_state \<Rightarrow> real \<Rightarrow> real \<Rightarrow> latlng" where
  "xyToLatLon s x y =
     (let lat = anchorLat s + y / 111320;
          lon = anchorLon s + x / (111320 * cos ((anchorLat s * pi) / 180))
      in (lat, lon))"

definition pointToLatLon :: "fm_state \<Rightarrow> jsval \<Rightarrow> latlng option" where
  "pointToLatLon s p =
     (if \<not> truthy p \<or> \<not> is_ref p then None
      else if isNumber (get p ''lat'') \<and> isNumber (get p ''lon'')
        then Some (num (get p ''lat''), num (get p ''lon''))
      else if isNumber (get p ''x'') \<and> isNumber (get p ''y'')
        then Some (xyToLatLon s (num (get p ''x'')) (num (get p ''y'')))
      else None)"

subsection \<open>Telemetry store and trail buffer\<close>

text \<open>Lines 232--239 of \<^verbatim>\<open>applyTelemetry\<close>: the position of a record, or \<^verbatim>\<open>null\<close>.\<close>

definition resolve_latlng :: "fm_state \<Rightarrow> jsval \<Rightarrow> latlng option" where
  "resolve_latlng s t =
     (if truthy (get t ''pos'') \<and> isNumber (get (get t ''pos'') ''lat'')
           \<and> isNumber (get (get t ''pos'') ''lon'')
        then Some (num (get (get t ''pos'') ''lat''), num (get (get t ''pos'') ''lon''))
      else if truthy (get t ''pos'') \<and> isNumber (get (get t ''pos'') ''x'')
           \<and> isNumber (get (get t ''pos'') ''y'')
        then Some (xyToLatLon s (num (get (get t ''pos'') ''x'')) (num (get (get t ''pos'') ''y'')))
      else if isNumber (get t ''x'') \<and> isNumber (get t ''y'')
        then Some (xyToLatLon s (num (get t ''x'')) (num (get t ''y'')))
      else None)"

text \<open>\<^verbatim>\<open>while (buf.length > 200) buf.shift();\<close>\<close>

function trim :: "'a list \<Rightarrow> 'a list" where
  "trim buf = (if length buf > 200 then trim (tl buf) else buf)"
  by pat_completeness auto
termination
  by (relation "measure length") auto

declare trim.simps [simp del]

definition applyTelemetry :: "fm_state \<Rightarrow> jsval \<Rightarrow> fm_state" where
  "applyTelemetry s t =
     (if \<not> truthy t \<or> \<not> truthy (get t ''node_id'') then s
      else
        let s1 = s\<lparr>drones := map_set (drones s) (get t ''node_id'') t\<rparr> in
        case resolve_latlng s1 t of
          None \<Rightarrow> s1
        | Some latlng \<Rightarrow>
            let buf = (case map_get (trails s1) (get t ''node_id'') of
                         Some b \<Rightarrow> b | None \<Rightarrow> []);
                buf' = trim (buf @ [latlng]);
                s2 = s1\<lparr>trails := map_set (trails s1) (get t ''node_id'') buf'\<rparr>
            in if \<not> truthy (selectedNodeId s2)
               then s2\<lparr>selectedNodeId := get t ''node_id''\<rparr> else s2)"

subsection \<open>Mission overlay: the anchor\<close>

text \<open>
  \<^verbatim>\<open>drawMissionOverlay\<close> draws circles and, when the mission's base carries numeric
  \<^verbatim>\<open>lat\<close>/\<^verbatim>\<open>lon\<close>, moves the projector's anchor there.  Only the anchor is state of the model.
\<close>

definition drawMissionOverlay :: "fm_state \<Rightarrow> jsval \<Rightarrow> fm_state" where
  "drawMissionOverlay s mission =
     (if \<not> truthy mission \<or> \<not> is_ref mission then s
      else if truthy (get mission ''base'') then
        (case pointToLatLon s (get mission ''base'') of
           None \<Rightarrow> s
         | Some ll \<Rightarrow>
             if isNumber (get (get mission ''base'') ''lat'')
                \<and> isNumber (get (get mission ''base'') ''lon'')
             then s\<lparr>anchorLat := num (get (get mission ''base'') ''lat''),
                    anchorLon := num (get (get mission ''base'') ''lon'')\<rparr>
             else s)
      else s)"

subsection \<open>Inbound frames\<close>

text \<open>
  The three tests of \<^verbatim>\<open>ws.onmessage\<close> (lines 208, 215, 220), in their order, name the branch
  a parsed message takes.
\<close>

datatype route = ToSnapshot "jsval list" | ToMission jsval | ToDelta jsval | Ignored

definition classify :: "jsval \<Rightarrow> route" where
  "classify msg =
     (if truthy msg \<and> get msg ''type'' = JStr ''snapshot'' \<and> isArray (get msg ''nodes'')
        then ToSnapshot (elems (get msg ''nodes''))
      else if truthy msg \<and> get msg ''type'' = JStr ''mission_update''
              \<and> truthy (get msg ''mission'')
        then ToMission (get msg ''mission'')
      else if truthy msg \<and> truthy (get msg ''node_id'') then ToDelta msg
      else Ignored)"

text \<open>
  The argument is the outcome of \<^verbatim>\<open>JSON.parse(ev.data)\<close>: \<open>None\<close> when it throws.
  \<^verbatim>\<open>renderHud\<close> and \<^verbatim>\<open>refreshAllIcons\<close> only redraw.
\<close>

definition ws_onmessage :: "fm_state \<Rightarrow> jsval option \<Rightarrow> fm_state" where
  "ws_onmessage s parsed =
     (case parsed of
        None \<Rightarrow> s
      | Some msg \<Rightarrow>
          (case classify msg of
             ToSnapshot ns \<Rightarrow> foldl applyTelemetry s ns
           | ToMission m \<Rightarrow> drawMissionOverlay s m
           | ToDelta t \<Rightarrow> applyTelemetry s t
           | Ignored \<Rightarrow> s))"

text \<open>The frames of a session, in delivery order.\<close>

definition ws_run :: "fm_state \<Rightarrow> jsval option list \<Rightarrow> fm_state" where
  "ws_run s frames = foldl ws_onmessage s frames"

subsection \<open>The operator's clicks\<close>

text \<open>
  Besides line 256 of \<^verbatim>\<open>applyTelemetry\<close>, two click handlers assign \<^verbatim>\<open>selectedNodeId\<close>.  The
  handler of a marker (line 61) assigns the identifier the marker was created for;
  \<^verbatim>\<open>ensureDrone\<close> and \<^verbatim>\<open>trails.set\<close> run for the same records, so the markers are the entries
  of \<open>trails\<close>, in order.  The handler of a list button (line 148) assigns the value of the
  button's \<^verbatim>\<open>data-id\<close> attribute, a string that the browser read from the identifier's text
  in the generated HTML; it is the argument here, and it is empty for some identifiers (the
  empty array, a string that begins with a double quote).
\<close>

definition marker_click :: "fm_state \<Rightarrow> nat \<Rightarrow> fm_state" where
  "marker_click s i =
     (if i < length (trails s) then s\<lparr>selectedNodeId := fst (trails s ! i)\<rparr> else s)"

definition list_click :: "fm_state \<Rightarrow> string \<Rightarrow> fm_state" where
  "list_click s data_id = s\<lparr>selectedNodeId := JStr data_id\<rparr>"

datatype ui_event = Frame "jsval option" | MarkerClick nat | ListClick string

fun ui_step :: "fm_state \<Rightarrow> ui_event \<Rightarrow> fm_state" where
  "ui_step s (Frame parsed) = ws_onmessage s parsed"
| "ui_step s (MarkerClick i) = marker_click s i"
| "ui_step s (ListClick data_id) = list_click s data_id"

definition ui_run :: "fm_state \<Rightarrow> ui_event list \<Rightarrow> fm_state" where
  "ui_run s evs = foldl ui_step s evs"

subsection \<open>Connection handlers and the reconnect timer\<close>

datatype hud = HudNone | WS_CONNECTING | WS_INIT_ERROR | WS_OK | WS_ERROR | WS_CLOSED_RETRY

text \<open>
  \<open>sockets\<close> counts the \<^verbatim>\<open>WebSocket\<close> objects constructed so far; \<open>timers\<close> holds, for each
  pending \<^verbatim>\<open>setTimeout(connectWs, d)\<close>, the milliseconds left before it may run.
\<close>

record conn =
  hudStatus :: hud
  sockets :: nat
  timers :: "nat list"

definition conn_init :: conn where
  "conn_init = \<lparr> hudStatus = HudNone, sockets = 0, timers = [] \<rparr>"

text \<open>\<open>ctor_ok\<close> tells whether \<^verbatim>\<open>new WebSocket(...)\<close> returns rather than throws.\<close>

definition connectWs :: "bool \<Rightarrow> conn \<Rightarrow> conn" where
  "connectWs ctor_ok c =
     (if ctor_ok then c\<lparr>hudStatus := WS_CONNECTING, sockets := Suc (sockets c)\<rparr>
      else c\<lparr>hudStatus := WS_INIT_ERROR\<rparr>)"

definition ws_onopen :: "conn \<Rightarrow> conn" where
  "ws_onopen c = c\<lparr>hudStatus := WS_OK\<rparr>"

definition ws_onerror :: "conn \<Rightarrow> conn" where
  "ws_onerror c = c\<lparr>hudStatus := WS_ERROR\<rparr>"

definition ws_onclose :: "conn \<Rightarrow> conn" where
  "ws_onclose c = c\<lparr>hudStatus := WS_CLOSED_RETRY, timers := timers c @ [1500]\<rparr>"

text \<open>
  The event loop around the handlers.  Time passes (\<open>Elapse d\<close>), and the socket reports
  \<open>Open\<close>, a clean \<open>Close\<close>, or a failure.  A browser socket fires its error event only
  inside its closing steps, directly before the close event, so a failure (\<open>Failed\<close>) runs
  \<^verbatim>\<open>onerror\<close> and then \<^verbatim>\<open>onclose\<close>.  The runtime runs a timer callback (\<open>Fire\<close>) only when a
  pending timer has no time left; the first such timer is removed and \<^verbatim>\<open>connectWs\<close> runs.
\<close>

datatype event = Open | Close | Failed | Elapse nat | Fire bool

fun remove_due :: "nat list \<Rightarrow> nat list option" where
  "remove_due [] = None"
| "remove_due (t # ts) =
     (if t = 0 then Some ts else map_option ((#) t) (remove_due ts))"

fun conn_step :: "conn \<Rightarrow> event \<Rightarrow> conn" where
  "conn_step c Open = ws_onopen c"
| "conn_step c Close = ws_onclose c"
| "conn_step c Failed = ws_onclose (ws_onerror c)"
| "conn_step c (Elapse d) = c\<lparr>timers := map (\<lambda>t. t - d) (timers c)\<rparr>"
| "conn_step c (Fire ctor_ok) =
     (case remove_due (timers c) of
        None \<Rightarrow> c
      | Some ts \<Rightarrow> connectWs ctor_ok (c\<lparr>timers := ts\<rparr>))"

definition conn_run :: "conn \<Rightarrow> event list \<Rightarrow> conn" where
  "conn_run c evs = foldl conn_step c evs"

text \<open>The time that passes during a run of events, and the closes it contains.\<close>

fun elapsed :: "event list \<Rightarrow> nat" where
  "elapsed [] = 0"
| "elapsed (Elapse d # evs) = d + elapsed evs"
| "elapsed (_ # evs) = elapsed evs"

fun closes :: "event list \<Rightarrow> nat" where
  "closes [] = 0"
| "closes (Close # evs) = Suc (closes evs)"
| "closes (Failed # evs) = Suc (closes evs)"
| "closes (_ # evs) = closes evs"

text \<open>
  The runs a browser can produce.  A socket reports an opening or a close only while it is
  live: it is live from its construction to its close.  \<open>live_after\<close> is the number of live
  sockets after an event, given the number before it, and \<open>session\<close> accepts the runs in
  which every socket event has a live socket to come from.
\<close>

fun live_after :: "conn \<Rightarrow> nat \<Rightarrow> event \<Rightarrow> nat" where
  "live_after c n Close = n - 1"
| "live_after c n Failed = n - 1"
| "live_after c n (Fire ctor_ok) =
     (if ctor_ok \<and> remove_due (timers c) \<noteq> None then Suc n else n)"
| "live_after c n _ = n"

fun allowed :: "nat \<Rightarrow> event \<Rightarrow> bool" where
  "allowed n Open = (0 < n)"
| "allowed n Close = (0 < n)"
| "allowed n Failed = (0 < n)"
| "allowed n _ = True"

fun session :: "conn \<Rightarrow> nat \<Rightarrow> event list \<Rightarrow> bool" where
  "session c n [] = True"
| "session c n (ev # evs) = (allowed n ev \<and> session (conn_step c ev) (live_after c n ev) evs)"

text \<open>Start-up: the script calls \<^verbatim>\<open>connectWs\<close> once.\<close>

definition boot :: "bool \<Rightarrow> conn" where
  "boot ctor_ok = connectWs ctor_ok conn_init"

definition boot_live :: "bool \<Rightarrow> nat" where
  "boot_live ctor_ok = (if ctor_ok then 1 else 0)"

section \<open>The dashboard (App)\<close>

text \<open>
  \<^verbatim>\<open>upsertNode\<close> and \<^verbatim>\<open>setSnapshot\<close> read the same in all versions of the dashboard that have
  them; \<^verbatim>\<open>ws.onmessage\<close> is the one of the version with the mission panel.  \<open>err\<close> is the
  error banner: \<open>None\<close> for the empty string, \<open>Some e\<close> for
  \<^verbatim>\<open>"WS parse error: " + String(e)\<close>.
\<close>

datatype exn = SyntaxError | TypeError

record app_state =
  byId :: "jsval jsmap"
  nodes :: "jsval list"
  mission :: jsval
  err :: "exn option"

definition app_init :: app_state where
  "app_init = \<lparr> byId = [], nodes = [], mission = JNull, err = None \<rparr>"

definition upsertNode :: "app_state \<Rightarrow> jsval \<Rightarrow> app_state" where
  "upsertNode s n =
     (let id = get n ''node_id'' in
      if \<not> truthy id then s
      else let m = map_set (byId s) id n in s\<lparr>byId := m, nodes := map_values m\<rparr>)"

text \<open>
  \<^verbatim>\<open>new Map((arr || []).map((n) => [n.node_id, n]))\<close>: calling \<^verbatim>\<open>map\<close> on a value that is not
  an array, or reading \<^verbatim>\<open>node_id\<close> of \<^verbatim>\<open>null\<close>, throws a TypeError before anything is assigned.
\<close>

definition setSnapshot :: "app_state \<Rightarrow> jsval \<Rightarrow> exn + app_state" where
  "setSnapshot s arr =
     (let a = (if truthy arr then arr else JArr []) in
      if \<not> isArray a then Inl TypeError
      else if JNull \<in> set (elems a) \<or> JUndefined \<in> set (elems a) then Inl TypeError
      else
        let m = foldl (\<lambda>m n. map_set m (get n ''node_id'') n) [] (elems a)
        in Inr (s\<lparr>byId := m, nodes := map_values m\<rparr>))"

datatype app_route = AppSnapshot jsval | AppMission jsval | AppDelta jsval

definition app_classify :: "jsval \<Rightarrow> app_route" where
  "app_classify msg =
     (if truthy msg \<and> get msg ''type'' = JStr ''snapshot''
        then AppSnapshot (if truthy (get msg ''nodes'') then get msg ''nodes'' else JArr [])
      else if truthy msg \<and> get msg ''type'' = JStr ''mission_update''
        then AppMission (if truthy (get msg ''mission'') then get msg ''mission'' else JNull)
      else AppDelta msg)"

definition app_onmessage :: "app_state \<Rightarrow> jsval option \<Rightarrow> app_state" where
  "app_onmessage s parsed =
     (case parsed of
        None \<Rightarrow> s\<lparr>err := Some SyntaxError\<rparr>
      | Some msg \<Rightarrow>
          (case app_classify msg of
             AppSnapshot arr \<Rightarrow>
               (case setSnapshot s arr of Inl e \<Rightarrow> s\<lparr>err := Some e\<rparr> | Inr s' \<Rightarrow> s')
           | AppMission m \<Rightarrow> s\<lparr>mission := m\<rparr>
           | AppDelta n \<Rightarrow> upsertNode s n))"

section \<open>The specification's wording\<close>

text \<open>The projection formula as the specification words it, over an explicit anchor.\<close>

definition project_spec :: "latlng \<Rightarrow> real \<Rightarrow> real \<Rightarrow> latlng" where
  "project_spec anchor offset_x offset_y =
     (fst anchor + offset_y / 111320,
      snd anchor + offset_x / (111320 * cos (fst anchor * pi / 180)))"

text \<open>
  The three position forms of a record as the specification lists them, each projected as the
  specification's formula says, and the rule that the first form present wins.
\<close>

definition geo_form :: "jsval \<Rightarrow> latlng option" where
  "geo_form t =
     (case (get (get t ''pos'') ''lat'', get (get t ''pos'') ''lon'') of
        (JNum la, JNum lo) \<Rightarrow> Some (la, lo)
      | _ \<Rightarrow> None)"

definition planar_form :: "latlng \<Rightarrow> jsval \<Rightarrow> latlng option" where
  "planar_form anchor t =
     (case (get (get t ''pos'') ''x'', get (get t ''pos'') ''y'') of
        (JNum x, JNum y) \<Rightarrow> Some (project_spec anchor x y)
      | _ \<Rightarrow> None)"

definition bare_form :: "latlng \<Rightarrow> jsval \<Rightarrow> latlng option" where
  "bare_form anchor t =
     (case (get t ''x'', get t ''y'') of
        (JNum x, JNum y) \<Rightarrow> Some (project_spec anchor x y)
      | _ \<Rightarrow> None)"

fun first_match :: "'a option list \<Rightarrow> 'a option" where
  "first_match [] = None"
| "first_match (Some x # rest) = Some x"
| "first_match (None # rest) = first_match rest"

definition resolve_spec :: "latlng \<Rightarrow> jsval \<Rightarrow> latlng option" where
  "resolve_spec anchor t = first_match [geo_form t, planar_form anchor t, bare_form anchor t]"

text \<open>
  A record has a resolvable position when one of the three forms is present (the anchor plays
  no part in that); it can be selected automatically when it also has a truthy identifier.
  \<open>delivered\<close> lists the records a frame hands to \<^verbatim>\<open>applyTelemetry\<close>, in order.
\<close>

definition has_position :: "jsval \<Rightarrow> bool" where
  "has_position t =
     (geo_form t \<noteq> None \<or> planar_form (0, 0) t \<noteq> None \<or> bare_form (0, 0) t \<noteq> None)"

definition selectable :: "jsval \<Rightarrow> bool" where
  "selectable t = (truthy (get t ''node_id'') \<and> has_position t)"

definition delivered :: "jsval option \<Rightarrow> jsval list" where
  "delivered parsed =
     (case parsed of
        None \<Rightarrow> []
      | Some msg \<Rightarrow>
          (case classify msg of ToSnapshot ns \<Rightarrow> ns | ToDelta t \<Rightarrow> [t] | _ \<Rightarrow> []))"

text \<open>
  The automatic selection fires at a step when a frame changes the selection; a click clears
  the selection when it turns a truthy selection into an empty one.  Both are counted along a
  session.
\<close>

fun fires :: "fm_state \<Rightarrow> ui_event \<Rightarrow> bool" where
  "fires s (Frame parsed) = (selectedNodeId (ws_onmessage s parsed) \<noteq> selectedNodeId s)"
| "fires s _ = False"

fun clears :: "fm_state \<Rightarrow> ui_event \<Rightarrow> bool" where
  "clears s (Frame parsed) = False"
| "clears s ev = (truthy (selectedNodeId s) \<and> \<not> truthy (selectedNodeId (ui_step s ev)))"

fun count_fires :: "fm_state \<Rightarrow> ui_event list \<Rightarrow> nat" where
  "count_fires s [] = 0"
| "count_fires s (ev # evs) = (if fires s ev then 1 else 0) + count_fires (ui_step s ev) evs"

fun count_clears :: "fm_state \<Rightarrow> ui_event list \<Rightarrow> nat" where
  "count_clears s [] = 0"
| "count_clears s (ev # evs) = (if clears s ev then 1 else 0) + count_clears (ui_step s ev) evs"

text \<open>
  The trail invariant, and the trail as the specification describes it: the last 200 of all
  the points appended for a key.  \<open>points_for\<close> lists the points that the records of one frame
  contribute to the trail of key \<open>k\<close>, resolved against the anchor in force when the frame
  arrives; \<open>appended\<close> collects them over a run of frames.  Entries persist when every entry
  keeps its place and key; an entry whose key is an object or an array can never be looked up
  again and keeps its points too.
\<close>

definition trails_capped :: "latlng list jsmap \<Rightarrow> bool" where
  "trails_capped m = (\<forall>(k, b) \<in> set m. length b \<le> 200)"

definition window :: "'a list \<Rightarrow> 'a list" where
  "window xs = drop (length xs - 200) xs"

definition trail_of :: "latlng list jsmap \<Rightarrow> jsval \<Rightarrow> latlng list" where
  "trail_of m k = (case map_get m k of Some b \<Rightarrow> b | None \<Rightarrow> [])"

definition points_for :: "latlng \<Rightarrow> jsval list \<Rightarrow> jsval \<Rightarrow> latlng list" where
  "points_for anchor ts k =
     List.map_filter
       (\<lambda>t. if truthy (get t ''node_id'') \<and> get t ''node_id'' = k then resolve_spec anchor t
            else None) ts"

fun appended :: "fm_state \<Rightarrow> jsval option list \<Rightarrow> jsval \<Rightarrow> latlng list" where
  "appended s [] k = []"
| "appended s (f # fs) k =
     points_for (anchorLat s, anchorLon s) (delivered f) k @ appended (ws_onmessage s f) fs k"

definition trails_persist :: "latlng list jsmap \<Rightarrow> latlng list jsmap \<Rightarrow> bool" where
  "trails_persist m m' =
     (length m \<le> length m'
      \<and> (\<forall>i<length m. fst (m' ! i) = fst (m ! i)
            \<and> (is_ref (fst (m ! i)) \<longrightarrow> m' ! i = m ! i)))"

section \<open>Maps, trimming and the effect of one record\<close>

lemma map_get_map_set:
  "map_get (map_set m k v) k' = (if same_key k k' then Some v else map_get m k')"
  by (induction m) (auto simp: same_key_def)

lemma set_map_keys_map_set:
  "set (map_keys (map_set m k v)) = insert k (set (map_keys m))"
  unfolding map_keys_def
  by (induction m k v rule: map_set.induct) (auto simp: same_key_def)

lemma filter_map_set_other:
  "\<not> is_ref k \<Longrightarrow> filter (\<lambda>e. fst e \<noteq> k) (map_set m k v) = filter (\<lambda>e. fst e \<noteq> k) m"
  by (induction m) (auto simp: same_key_def)

lemma trim_eq_drop: "trim buf = drop (length buf - 200) buf"
proof (induction buf rule: trim.induct)
  case (1 buf)
  show ?case
  proof (cases "length buf > 200")
    case True
    then obtain x xs where b: "buf = x # xs" by (cases buf) auto
    with True 1 have "trim xs = drop (length xs - 200) xs" by simp
    moreover have "trim buf = trim xs" using True b by (subst trim.simps) simp
    moreover have "drop (length buf - 200) buf = drop (length xs - 200) xs"
      using True b by (simp add: drop_Cons' )
    ultimately show ?thesis by simp
  next
    case False
    then show ?thesis by (subst trim.simps) simp
  qed
qed

lemma length_trim: "length (trim buf) \<le> 200"
  by (simp add: trim_eq_drop)

lemma xyToLatLon_drones [simp]:
  "xyToLatLon (s\<lparr>drones := d\<rparr>) x y = xyToLatLon s x y"
  by (simp add: xyToLatLon_def)

lemma resolve_latlng_drones [simp]:
  "resolve_latlng (s\<lparr>drones := d\<rparr>) t = resolve_latlng s t"
  by (simp only: resolve_latlng_def xyToLatLon_drones)

lemma applyTelemetry_drones:
  "drones (applyTelemetry s t) =
     (if truthy t \<and> truthy (get t ''node_id'') then map_set (drones s) (get t ''node_id'') t
      else drones s)"
  by (simp add: applyTelemetry_def Let_def split: option.splits)

lemma applyTelemetry_trails:
  "trails (applyTelemetry s t) =
     (if truthy t \<and> truthy (get t ''node_id'') then
        (case resolve_latlng s t of
           None \<Rightarrow> trails s
         | Some p \<Rightarrow> map_set (trails s) (get t ''node_id'')
              (trim ((case map_get (trails s) (get t ''node_id'') of Some b \<Rightarrow> b | None \<Rightarrow> []) @ [p])))
      else trails s)"
  by (simp add: applyTelemetry_def Let_def split: option.splits)

lemma applyTelemetry_anchor:
  "anchorLat (applyTelemetry s t) = anchorLat s \<and> anchorLon (applyTelemetry s t) = anchorLon s"
  by (simp add: applyTelemetry_def Let_def split: option.splits)

lemma applyTelemetry_selected:
  "selectedNodeId (applyTelemetry s t) =
     (if truthy t \<and> truthy (get t ''node_id'') \<and> resolve_latlng s t \<noteq> None
         \<and> \<not> truthy (selectedNodeId s)
      then get t ''node_id'' else selectedNodeId s)"
  by (auto simp add: applyTelemetry_def Let_def split: option.splits)

lemma xyToLatLon_project_spec:
  "xyToLatLon s x y = project_spec (anchorLat s, anchorLon s) x y"
  by (simp add: xyToLatLon_def project_spec_def)

lemma isNumber_get_truthy: "isNumber (get p k) \<Longrightarrow> truthy p"
  by (cases p) simp_all

lemma geo_form_eq:
  "geo_form t =
     (if isNumber (get (get t ''pos'') ''lat'') \<and> isNumber (get (get t ''pos'') ''lon'')
      then Some (num (get (get t ''pos'') ''lat''), num (get (get t ''pos'') ''lon''))
      else None)"
  unfolding geo_form_def
  by (cases "get (get t ''pos'') ''lat''"; cases "get (get t ''pos'') ''lon''") simp_all

lemma planar_form_eq:
  "planar_form a t =
     (if isNumber (get (get t ''pos'') ''x'') \<and> isNumber (get (get t ''pos'') ''y'')
      then Some (project_spec a (num (get (get t ''pos'') ''x'')) (num (get (get t ''pos'') ''y'')))
      else None)"
  unfolding planar_form_def
  by (cases "get (get t ''pos'') ''x''"; cases "get (get t ''pos'') ''y''") simp_all

lemma bare_form_eq:
  "bare_form a t =
     (if isNumber (get t ''x'') \<and> isNumber (get t ''y'')
      then Some (project_spec a (num (get t ''x'')) (num (get t ''y'')))
      else None)"
  unfolding bare_form_def
  by (cases "get t ''x''"; cases "get t ''y''") simp_all

lemma resolve_latlng_spec:
  "resolve_latlng s t = resolve_spec (anchorLat s, anchorLon s) t"
  unfolding resolve_latlng_def resolve_spec_def geo_form_eq planar_form_eq bare_form_eq
    xyToLatLon_project_spec
  using isNumber_get_truthy [of "get t ''pos''"]
  by auto

section \<open>Coordinate projector\<close>

text \<open>
  Claim C8.  The projector computes \<open>lat = anchor.lat + y / 111320\<close> and
  \<open>lon = anchor.lon + x / (111320 * cos (anchor.lat in radians))\<close>.  With the anchor at
  (39.9334, 32.8597), which is also the initial anchor, the offset (0, 0) projects to the anchor
  itself and the offset (0, 111320) raises the latitude by exactly one degree and keeps the
  longitude; the divisor of the longitude term is not zero there.  Numbers are exact reals.
\<close>

theorem xyToLatLon_projection:
  "xyToLatLon s x y = project_spec (anchorLat s, anchorLon s) x y
   \<and> xyToLatLon (s\<lparr>anchorLat := 39.9334, anchorLon := 32.8597\<rparr>) 0 0 = (39.9334, 32.8597)
   \<and> xyToLatLon (s\<lparr>anchorLat := 39.9334, anchorLon := 32.8597\<rparr>) 0 111320
       = (39.9334 + 1, 32.8597)
   \<and> (anchorLat fm_init, anchorLon fm_init) = (39.9334, 32.8597)
   \<and> 0 < cos ((39.9334 * pi) / 180)"
proof -
  have "0 < cos ((39.9334 * pi) / 180)"
    by (rule cos_gt_zero_pi) (use pi_gt_zero in simp_all)
  then show ?thesis
    by (simp add: xyToLatLon_def project_spec_def fm_init_def)
qed

section \<open>Position resolution\<close>

text \<open>
  Claim C7.  The position of a record is resolved in the order: the structured geographic
  \<open>pos.lat\<close>/\<open>pos.lon\<close>, then the structured planar \<open>pos.x\<close>/\<open>pos.y\<close> projected, then the bare
  \<open>x\<close>/\<open>y\<close> projected; the first form present wins, so a record with both a geographic and a
  planar form resolves to the geographic one.  The point appended to the trail of a record
  with a truthy identifier is the one so resolved.
\<close>

theorem position_resolution_order:
  "resolve_latlng s t = resolve_spec (anchorLat s, anchorLon s) t
   \<and> (geo_form t \<noteq> None \<longrightarrow> resolve_latlng s t = geo_form t)
   \<and> (truthy t \<and> truthy (get t ''node_id'') \<longrightarrow>
        trails (applyTelemetry s t) =
          (case resolve_spec (anchorLat s, anchorLon s) t of
             None \<Rightarrow> trails s
           | Some p \<Rightarrow>
               map_set (trails s) (get t ''node_id'')
                 (trim ((case map_get (trails s) (get t ''node_id'') of
                           Some b \<Rightarrow> b | None \<Rightarrow> []) @ [p]))))"
proof (intro conjI impI)
  show r: "resolve_latlng s t = resolve_spec (anchorLat s, anchorLon s) t"
    by (rule resolve_latlng_spec)
  show "resolve_latlng s t = geo_form t" if "geo_form t \<noteq> None"
    using that unfolding r resolve_spec_def by (cases "geo_form t") simp_all
  show "trails (applyTelemetry s t) =
          (case resolve_spec (anchorLat s, anchorLon s) t of
             None \<Rightarrow> trails s
           | Some p \<Rightarrow>
               map_set (trails s) (get t ''node_id'')
                 (trim ((case map_get (trails s) (get t ''node_id'') of
                           Some b \<Rightarrow> b | None \<Rightarrow> []) @ [p])))"
    if "truthy t \<and> truthy (get t ''node_id'')"
    using that by (simp add: applyTelemetry_trails r)
qed

theorem position_resolution_order_witness:
  "resolve_latlng fm_init
     (JObj [(''node_id'', JStr ''U''),
            (''pos'', JObj [(''lat'', JNum 10), (''lon'', JNum 20), (''x'', JNum 5), (''y'', JNum 5)])])
     = Some (10, 20)
   \<and> trails (applyTelemetry fm_init
        (JObj [(''node_id'', JStr ''U''),
               (''pos'', JObj [(''lat'', JNum 10), (''lon'', JNum 20), (''x'', JNum 5), (''y'', JNum 5)])]))
     = [(JStr ''U'', [(10, 20)])]"
proof -
  define t where "t = JObj [(''node_id'', JStr ''U''),
    (''pos'', JObj [(''lat'', JNum 10), (''lon'', JNum 20), (''x'', JNum 5), (''y'', JNum 5)])]"
  have g: "geo_form t = Some (10, 20)"
    by (simp add: t_def geo_form_def)
  have id: "truthy t \<and> truthy (get t ''node_id'')"
    by (simp add: t_def)
  have r: "resolve_spec (anchorLat fm_init, anchorLon fm_init) t = Some (10, 20)"
    by (simp add: resolve_spec_def g)
  have e: "trails fm_init = []"
    by (simp add: fm_init_def)
  have n: "get t ''node_id'' = JStr ''U''"
    by (simp add: t_def)
  from position_resolution_order [of fm_init t] g id r e n
  have "resolve_latlng fm_init t = Some (10, 20)
        \<and> trails (applyTelemetry fm_init t) = [(JStr ''U'', [(10, 20)])]"
    by (simp add: trim_eq_drop)
  then show ?thesis
    by (simp only: t_def)
qed

section \<open>Trail buffer\<close>

lemma set_map_set:
  "e \<in> set (map_set m k v) \<Longrightarrow> e \<in> set m \<or> snd e = v"
  by (induction m k v rule: map_set.induct) (auto split: if_splits)

lemma map_set_nth:
  "i < length m \<Longrightarrow>
     i < length (map_set m k v) \<and> fst (map_set m k v ! i) = fst (m ! i)
     \<and> (is_ref (fst (m ! i)) \<longrightarrow> map_set m k v ! i = m ! i)"
proof (induction m k v arbitrary: i rule: map_set.induct)
  case (1 k v)
  then show ?case by simp
next
  case (2 k' v' m k v)
  show ?case
  proof (cases i)
    case 0
    then show ?thesis by (auto simp: same_key_def)
  next
    case (Suc j)
    with 2 show ?thesis by auto
  qed
qed

lemma length_map_set: "length m \<le> length (map_set m k v)"
  by (induction m k v rule: map_set.induct) auto

lemma map_set_ref: "is_ref k \<Longrightarrow> map_set m k v = m @ [(k, v)]"
  by (induction m k v rule: map_set.induct) (simp_all add: same_key_def)

lemma map_get_ref: "is_ref k \<Longrightarrow> map_get m k = None"
  by (induction m) (auto simp: same_key_def)

lemma truthy_get: "truthy (get t k) \<Longrightarrow> truthy t"
  by (cases t) simp_all

lemma drop_drop_append:
  "drop k (drop n xs @ qs) = drop (k + min n (length xs)) (xs @ qs)"
proof (cases "n \<le> length xs")
  case True
  then show ?thesis by (simp add: min_def)
next
  case False
  then show ?thesis by (simp add: min_def)
qed

lemma window_window: "window (window xs @ qs) = window (xs @ qs)"
proof -
  have "length (drop (length xs - 200) xs @ qs) - 200 + min (length xs - 200) (length xs)
          = length (xs @ qs) - 200"
    by (simp add: min_def)
  then show ?thesis
    unfolding window_def by (simp only: drop_drop_append)
qed

lemma trim_window: "trim xs = window xs"
  by (simp add: trim_eq_drop window_def)

lemma window_last: "last (window (xs @ [p])) = p"
  by (simp add: window_def)

lemma window_short: "length xs < 200 \<Longrightarrow> window (xs @ [p]) = xs @ [p]"
  by (simp add: window_def)

lemma window_full: "length xs = 200 \<Longrightarrow> window (xs @ [p]) = tl xs @ [p]"
  by (cases xs) (simp_all add: window_def)

lemma trails_persist_refl: "trails_persist m m"
  by (simp add: trails_persist_def)

lemma trails_persist_trans:
  assumes ab: "trails_persist a b" and bc: "trails_persist b c"
  shows "trails_persist a c"
  unfolding trails_persist_def
proof (intro conjI allI impI)
  show "length a \<le> length c"
    using ab bc by (simp add: trails_persist_def)
next
  fix i assume i: "i < length a"
  then have j: "i < length b" using ab by (simp add: trails_persist_def)
  from ab i have 1: "fst (b ! i) = fst (a ! i)" "is_ref (fst (a ! i)) \<longrightarrow> b ! i = a ! i"
    by (simp_all add: trails_persist_def)
  from bc j have 2: "fst (c ! i) = fst (b ! i)" "is_ref (fst (b ! i)) \<longrightarrow> c ! i = b ! i"
    by (simp_all add: trails_persist_def)
  show "fst (c ! i) = fst (a ! i)" using 1 2 by simp
  show "c ! i = a ! i" if "is_ref (fst (a ! i))" using that 1 2 by simp
qed

lemma trails_persist_map_set: "trails_persist m (map_set m k v)"
  unfolding trails_persist_def
  using map_set_nth [of _ m k v] length_map_set [of m k v] by blast

lemma applyTelemetry_capped:
  "trails_capped (trails s) \<Longrightarrow> trails_capped (trails (applyTelemetry s t))"
  unfolding trails_capped_def applyTelemetry_trails
  by (auto split: option.splits dest!: set_map_set simp: length_trim)

lemma applyTelemetry_persist:
  "trails_persist (trails s) (trails (applyTelemetry s t))"
  unfolding applyTelemetry_trails
  by (simp split: option.splits add: trails_persist_map_set trails_persist_refl)

lemma drawMissionOverlay_frame:
  "drones (drawMissionOverlay s m) = drones s \<and> trails (drawMissionOverlay s m) = trails s
   \<and> selectedNodeId (drawMissionOverlay s m) = selectedNodeId s"
  by (simp add: drawMissionOverlay_def split: option.splits)

lemma foldl_applyTelemetry_capped:
  "trails_capped (trails s) \<Longrightarrow> trails_capped (trails (foldl applyTelemetry s ns))"
  by (induction ns arbitrary: s) (simp_all add: applyTelemetry_capped)

lemma foldl_applyTelemetry_persist:
  "trails_persist (trails s) (trails (foldl applyTelemetry s ns))"
proof (induction ns arbitrary: s)
  case Nil
  show ?case by (simp add: trails_persist_refl)
next
  case (Cons n ns)
  from applyTelemetry_persist [of s n] Cons [of "applyTelemetry s n"]
  show ?case by (simp add: trails_persist_trans)
qed

lemma ws_onmessage_capped:
  "trails_capped (trails s) \<Longrightarrow> trails_capped (trails (ws_onmessage s parsed))"
  unfolding ws_onmessage_def
  by (auto split: option.splits route.splits
      simp: foldl_applyTelemetry_capped applyTelemetry_capped drawMissionOverlay_frame)

lemma ws_onmessage_persist:
  "trails_persist (trails s) (trails (ws_onmessage s parsed))"
  unfolding ws_onmessage_def
  by (auto split: option.splits route.splits
      simp: foldl_applyTelemetry_persist applyTelemetry_persist drawMissionOverlay_frame
        trails_persist_refl)

lemma ws_run_capped:
  "trails_capped (trails s) \<Longrightarrow> trails_capped (trails (ws_run s frames))"
  unfolding ws_run_def
  by (induction frames arbitrary: s) (simp_all add: ws_onmessage_capped)

lemma ws_run_persist:
  "trails_persist (trails s) (trails (ws_run s frames))"
  unfolding ws_run_def
proof (induction frames arbitrary: s)
  case Nil
  show ?case by (simp add: trails_persist_refl)
next
  case (Cons f fs)
  from ws_onmessage_persist [of s f] Cons [of "ws_onmessage s f"]
  show ?case by (simp add: trails_persist_trans)
qed

text \<open>What one record does to the trail that a lookup of \<open>k\<close> finds.\<close>

lemma applyTelemetry_trail_of:
  assumes "\<not> is_ref k"
  shows "map_get (trails (applyTelemetry s t)) k =
     (case points_for (anchorLat s, anchorLon s) [t] k of
        [] \<Rightarrow> map_get (trails s) k
      | p # ps \<Rightarrow> Some (window (trail_of (trails s) k @ [p])))"
proof (cases "truthy (get t ''node_id'') \<and> get t ''node_id'' = k")
  case True
  then have tt: "truthy t" by (blast intro: truthy_get)
  show ?thesis
    using True tt assms
    by (cases "resolve_spec (anchorLat s, anchorLon s) t")
      (simp_all add: applyTelemetry_trails points_for_def List.map_filter_simps
        resolve_latlng_spec map_get_map_set same_key_def trail_of_def trim_window)
next
  case False
  then have "map_get (trails (applyTelemetry s t)) k = map_get (trails s) k"
    by (auto simp: applyTelemetry_trails map_get_map_set same_key_def split: option.splits)
  with False show ?thesis
    by (auto simp: points_for_def List.map_filter_simps)
qed

lemma points_for_Cons:
  "points_for a (t # ts) k = points_for a [t] k @ points_for a ts k"
  by (simp add: points_for_def List.map_filter_simps split: option.splits)

lemma points_for_single: "length (points_for a [t] k) \<le> 1"
  by (simp add: points_for_def List.map_filter_simps split: option.splits)

lemma grow_compose:
  assumes m1: "m1 = (if ps = [] then m0 else Some (window (t0 @ ps)))"
    and t0: "t0 = (case m0 of Some b \<Rightarrow> b | None \<Rightarrow> [])"
    and m2: "m2 = (if qs = [] then m1 else Some (window ((case m1 of Some b \<Rightarrow> b | None \<Rightarrow> []) @ qs)))"
  shows "m2 = (if ps @ qs = [] then m0 else Some (window (t0 @ ps @ qs)))"
proof (cases "ps = []")
  case True
  with assms show ?thesis by simp
next
  case False
  show ?thesis
  proof (cases "qs = []")
    case True
    with False assms show ?thesis by simp
  next
    case qs: False
    have "window (window (t0 @ ps) @ qs) = window ((t0 @ ps) @ qs)"
      by (rule window_window)
    with False qs m1 m2 show ?thesis by simp
  qed
qed

lemma foldl_applyTelemetry_trail_of:
  assumes "\<not> is_ref k"
  shows "map_get (trails (foldl applyTelemetry s ts)) k =
     (if points_for (anchorLat s, anchorLon s) ts k = [] then map_get (trails s) k
      else Some (window (trail_of (trails s) k @ points_for (anchorLat s, anchorLon s) ts k)))"
proof (induction ts arbitrary: s)
  case Nil
  show ?case by (simp add: points_for_def List.map_filter_simps)
next
  case (Cons t ts)
  let ?a = "(anchorLat s, anchorLon s)"
  let ?s1 = "applyTelemetry s t"
  have a1: "(anchorLat ?s1, anchorLon ?s1) = ?a"
    by (simp add: applyTelemetry_anchor)
  have 1: "map_get (trails ?s1) k =
      (if points_for ?a [t] k = [] then map_get (trails s) k
       else Some (window (trail_of (trails s) k @ points_for ?a [t] k)))"
    using applyTelemetry_trail_of [OF assms, of s t] points_for_single [of ?a t k]
    by (cases "points_for ?a [t] k") (simp_all)
  have 2: "map_get (trails (foldl applyTelemetry ?s1 ts)) k =
      (if points_for ?a ts k = [] then map_get (trails ?s1) k
       else Some (window ((case map_get (trails ?s1) k of Some b \<Rightarrow> b | None \<Rightarrow> [])
                            @ points_for ?a ts k)))"
    using Cons [of ?s1] by (simp add: a1 trail_of_def)
  have "map_get (trails (foldl applyTelemetry ?s1 ts)) k =
      (if points_for ?a [t] k @ points_for ?a ts k = [] then map_get (trails s) k
       else Some (window (trail_of (trails s) k @ points_for ?a [t] k @ points_for ?a ts k)))"
    using 1 _ 2 by (rule grow_compose) (simp add: trail_of_def)
  then show ?case
    by (simp add: points_for_Cons [of ?a t ts k])
qed

lemma ws_onmessage_trail_of:
  assumes "\<not> is_ref k"
  shows "map_get (trails (ws_onmessage s f)) k =
     (if points_for (anchorLat s, anchorLon s) (delivered f) k = [] then map_get (trails s) k
      else Some (window (trail_of (trails s) k
                  @ points_for (anchorLat s, anchorLon s) (delivered f) k)))"
proof (cases f)
  case None
  then show ?thesis
    by (simp add: ws_onmessage_def delivered_def points_for_def List.map_filter_simps)
next
  case (Some msg)
  show ?thesis
  proof (cases "classify msg")
    case (ToSnapshot ns)
    with Some foldl_applyTelemetry_trail_of [OF assms, of s ns] show ?thesis
      by (simp add: ws_onmessage_def delivered_def)
  next
    case (ToMission m)
    with Some show ?thesis
      by (simp add: ws_onmessage_def delivered_def drawMissionOverlay_frame points_for_def
          List.map_filter_simps)
  next
    case (ToDelta t)
    with Some foldl_applyTelemetry_trail_of [OF assms, of s "[t]"] show ?thesis
      by (simp add: ws_onmessage_def delivered_def)
  next
    case Ignored
    with Some show ?thesis
      by (simp add: ws_onmessage_def delivered_def points_for_def List.map_filter_simps)
  qed
qed

lemma ws_run_trail_of:
  assumes "\<not> is_ref k"
  shows "map_get (trails (ws_run s frames)) k =
     (if appended s frames k = [] then map_get (trails s) k
      else Some (window (trail_of (trails s) k @ appended s frames k)))"
  unfolding ws_run_def
proof (induction frames arbitrary: s)
  case Nil
  show ?case by simp
next
  case (Cons f fs)
  let ?s1 = "ws_onmessage s f"
  let ?ps = "points_for (anchorLat s, anchorLon s) (delivered f) k"
  have 2: "map_get (trails (foldl ws_onmessage ?s1 fs)) k =
      (if appended ?s1 fs k = [] then map_get (trails ?s1) k
       else Some (window ((case map_get (trails ?s1) k of Some b \<Rightarrow> b | None \<Rightarrow> [])
                            @ appended ?s1 fs k)))"
    using Cons [of ?s1] by (simp add: trail_of_def)
  have "map_get (trails (foldl ws_onmessage ?s1 fs)) k =
      (if ?ps @ appended ?s1 fs k = [] then map_get (trails s) k
       else Some (window (trail_of (trails s) k @ ?ps @ appended ?s1 fs k)))"
    using ws_onmessage_trail_of [OF assms, of s f] _ 2
    by (rule grow_compose) (simp add: trail_of_def)
  then show ?case by simp
qed

text \<open>
  Claim C6.  Whatever frames arrive, no trail is ever longer than 200: from the initial state,
  and from any state whose trails respect the cap.  Trimming removes points from the front
  only, and exactly as many as bring the length back to 200.  A record with a position
  appends its point at the end of the trail of its identifier: the new point is always kept,
  a trail shorter than 200 keeps all its points, and a trail of 200 loses exactly its oldest
  point.  Over a run of frames the trail found under a key is the last 200 of its old points
  followed by all the points appended for that key, in order; it is untouched when none is
  appended.  No handler removes a trail: every entry present before a run of frames is still
  present after it, under the same key and at the same place.
\<close>

theorem trail_cap_fifo:
  "trails_capped (trails (ws_run fm_init frames))
   \<and> (trails_capped (trails s) \<longrightarrow> trails_capped (trails (ws_run s frames)))
   \<and> trim buf = drop (length buf - 200) buf
   \<and> length (trim buf) = min (length buf) 200
   \<and> (truthy (get t ''node_id'') \<and> \<not> is_ref (get t ''node_id'') \<and> resolve_latlng s t = Some p \<longrightarrow>
        map_get (trails (applyTelemetry s t)) (get t ''node_id'')
          = Some (window (trail_of (trails s) (get t ''node_id'') @ [p]))
        \<and> last (trail_of (trails (applyTelemetry s t)) (get t ''node_id'')) = p
        \<and> (length (trail_of (trails s) (get t ''node_id'')) < 200 \<longrightarrow>
             trail_of (trails (applyTelemetry s t)) (get t ''node_id'')
               = trail_of (trails s) (get t ''node_id'') @ [p])
        \<and> (length (trail_of (trails s) (get t ''node_id'')) = 200 \<longrightarrow>
             trail_of (trails (applyTelemetry s t)) (get t ''node_id'')
               = tl (trail_of (trails s) (get t ''node_id'')) @ [p]))
   \<and> (truthy (get t ''node_id'') \<and> is_ref (get t ''node_id'') \<and> resolve_latlng s t = Some p \<longrightarrow>
        trails (applyTelemetry s t) = trails s @ [(get t ''node_id'', [p])])
   \<and> (\<not> is_ref k \<longrightarrow>
        map_get (trails (ws_run s frames)) k =
          (if appended s frames k = [] then map_get (trails s) k
           else Some (window (trail_of (trails s) k @ appended s frames k))))
   \<and> trails_persist (trails s) (trails (ws_run s frames))"
proof (intro conjI impI)
  have "trails_capped (trails fm_init)"
    by (simp add: trails_capped_def fm_init_def)
  then show "trails_capped (trails (ws_run fm_init frames))"
    by (rule ws_run_capped)
  show "trails_capped (trails (ws_run s frames))" if "trails_capped (trails s)"
    using that by (rule ws_run_capped)
  show "trim buf = drop (length buf - 200) buf"
    by (rule trim_eq_drop)
  show "length (trim buf) = min (length buf) 200"
    by (simp add: trim_eq_drop)
  show "map_get (trails (ws_run s frames)) k =
          (if appended s frames k = [] then map_get (trails s) k
           else Some (window (trail_of (trails s) k @ appended s frames k)))"
    if "\<not> is_ref k"
    using that by (rule ws_run_trail_of)
  show "trails_persist (trails s) (trails (ws_run s frames))"
    by (rule ws_run_persist)
next
  let ?id = "get t ''node_id''"
  assume h: "truthy ?id \<and> \<not> is_ref ?id \<and> resolve_latlng s t = Some p"
  then have tt: "truthy t" by (blast intro: truthy_get)
  have m: "map_get (trails (applyTelemetry s t)) ?id = Some (window (trail_of (trails s) ?id @ [p]))"
    using h tt
    by (simp add: applyTelemetry_trails map_get_map_set same_key_def trail_of_def trim_window)
  then have t: "trail_of (trails (applyTelemetry s t)) ?id = window (trail_of (trails s) ?id @ [p])"
    by (simp add: trail_of_def)
  show "map_get (trails (applyTelemetry s t)) ?id = Some (window (trail_of (trails s) ?id @ [p]))"
    by (rule m)
  show "last (trail_of (trails (applyTelemetry s t)) ?id) = p"
    unfolding t by (rule window_last)
  show "trail_of (trails (applyTelemetry s t)) ?id = trail_of (trails s) ?id @ [p]"
    if "length (trail_of (trails s) ?id) < 200"
    unfolding t using that by (rule window_short)
  show "trail_of (trails (applyTelemetry s t)) ?id = tl (trail_of (trails s) ?id) @ [p]"
    if "length (trail_of (trails s) ?id) = 200"
    unfolding t using that by (rule window_full)
next
  let ?id = "get t ''node_id''"
  assume h: "truthy ?id \<and> is_ref ?id \<and> resolve_latlng s t = Some p"
  then have tt: "truthy t" by (blast intro: truthy_get)
  have n: "map_get (trails s) ?id = None"
    using h by (simp add: map_get_ref)
  show "trails (applyTelemetry s t) = trails s @ [(?id, [p])]"
    using h tt by (simp add: applyTelemetry_trails map_set_ref n trim_eq_drop)
qed

theorem trail_cap_fifo_witness:
  "trail_of (trails (applyTelemetry
      \<lparr>anchorLat = 39.9334, anchorLon = 32.8597, drones = [],
         trails = [(JStr ''U'', map (\<lambda>i. (real i, 0)) [0..<200])], selectedNodeId = JStr ''U''\<rparr>
      (JObj [(''node_id'', JStr ''U''), (''pos'', JObj [(''lat'', JNum 50), (''lon'', JNum 60)])])))
     (JStr ''U'')
     = map (\<lambda>i. (real i, 0)) [1..<200] @ [(50, 60)]
   \<and> trails_capped (trails (ws_run
      \<lparr>anchorLat = 39.9334, anchorLon = 32.8597, drones = [],
         trails = [(JStr ''U'', [(10, 20)])], selectedNodeId = JStr ''U''\<rparr>
      [Some (JObj [(''node_id'', JStr ''U''), (''pos'', JObj [(''lat'', JNum 11), (''lon'', JNum 21)])]),
       Some (JObj [(''node_id'', JStr ''V''), (''pos'', JObj [(''lat'', JNum 1), (''lon'', JNum 2)])]),
       Some (JObj [(''node_id'', JStr ''U''), (''pos'', JObj [(''lat'', JNum 12), (''lon'', JNum 22)])])]))
   \<and> map_get (trails (ws_run
      \<lparr>anchorLat = 39.9334, anchorLon = 32.8597, drones = [],
         trails = [(JStr ''U'', [(10, 20)])], selectedNodeId = JStr ''U''\<rparr>
      [Some (JObj [(''node_id'', JStr ''U''), (''pos'', JObj [(''lat'', JNum 11), (''lon'', JNum 21)])]),
       Some (JObj [(''node_id'', JStr ''V''), (''pos'', JObj [(''lat'', JNum 1), (''lon'', JNum 2)])]),
       Some (JObj [(''node_id'', JStr ''U''), (''pos'', JObj [(''lat'', JNum 12), (''lon'', JNum 22)])])]))
     (JStr ''U'')
     = Some [(10, 20), (11, 21), (12, 22)]
   \<and> trim [0..<201] = [1..<201]
   \<and> length (trim [0..<201]) = 200
   \<and> trail_of (trails (applyTelemetry
      \<lparr>anchorLat = 39.9334, anchorLon = 32.8597, drones = [],
         trails = [(JStr ''U'', [(10, 20)])], selectedNodeId = JStr ''U''\<rparr>
      (JObj [(''node_id'', JStr ''U''), (''pos'', JObj [(''lat'', JNum 50), (''lon'', JNum 60)])])))
     (JStr ''U'')
     = [(10, 20), (50, 60)]
   \<and> trails (applyTelemetry
      \<lparr>anchorLat = 39.9334, anchorLon = 32.8597, drones = [],
         trails = [(JStr ''U'', [(10, 20)])], selectedNodeId = JStr ''U''\<rparr>
      (JObj [(''node_id'', JArr [JNum 7]), (''pos'', JObj [(''lat'', JNum 50), (''lon'', JNum 60)])]))
     = [(JStr ''U'', [(10, 20)]), (JArr [JNum 7], [(50, 60)])]"
proof -
  define F where "F = \<lparr>anchorLat = 39.9334, anchorLon = 32.8597, drones = [],
         trails = [(JStr ''U'', map (\<lambda>i. (real i, 0)) [0..<200])], selectedNodeId = JStr ''U''\<rparr>"
  define t where "t = JObj [(''node_id'', JStr ''U''),
         (''pos'', JObj [(''lat'', JNum 50), (''lon'', JNum 60)])]"
  define W where "W = \<lparr>anchorLat = 39.9334, anchorLon = 32.8597, drones = [],
         trails = [(JStr ''U'', [(10, 20)])], selectedNodeId = JStr ''U''\<rparr>"
  define fs where "fs =
      [Some (JObj [(''node_id'', JStr ''U''), (''pos'', JObj [(''lat'', JNum 11), (''lon'', JNum 21)])]),
       Some (JObj [(''node_id'', JStr ''V''), (''pos'', JObj [(''lat'', JNum 1), (''lon'', JNum 2)])]),
       Some (JObj [(''node_id'', JStr ''U''), (''pos'', JObj [(''lat'', JNum 12), (''lon'', JNum 22)])])]"
  have id: "get t ''node_id'' = JStr ''U''"
    by (simp add: t_def)
  have r: "resolve_latlng F t = Some (50, 60)"
    by (simp add: t_def resolve_latlng_def)
  have old: "trail_of (trails F) (JStr ''U'') = map (\<lambda>i. (real i, 0)) [0..<200]"
    by (simp add: F_def trail_of_def same_key_def)
  have full: "length (trail_of (trails F) (get t ''node_id'')) = 200"
    unfolding id old by simp
  have tl: "tl (map (\<lambda>i. (real i, 0 :: real)) [0..<200]) = map (\<lambda>i. (real i, 0)) [1..<200]"
    by (simp add: map_tl [symmetric] del: upt.simps)
  have pre: "truthy (get t ''node_id'') \<and> \<not> is_ref (get t ''node_id'')
             \<and> resolve_latlng F t = Some (50, 60)"
    using r by (simp add: id)
  from trail_cap_fifo [where s = F and t = t and p = "(50, 60)" and frames = "[]"
      and buf = "[]" and k = JNull]
  have "trail_of (trails (applyTelemetry F t)) (get t ''node_id'')
             = tl (trail_of (trails F) (get t ''node_id'')) @ [(50, 60)]"
    using pre full by blast
  then have 1: "trail_of (trails (applyTelemetry F t)) (JStr ''U'')
             = tl (trail_of (trails F) (JStr ''U'')) @ [(50, 60)]"
    by (simp only: id)
  have cap: "trails_capped (trails W)"
    by (simp add: W_def trails_capped_def)
  have ap: "appended W fs (JStr ''U'') = [(11, 21), (12, 22)]"
    by (simp add: W_def fs_def delivered_def classify_def points_for_def List.map_filter_simps
        resolve_spec_def geo_form_def)
  have oldW: "map_get (trails W) (JStr ''U'') = Some [(10, 20)]"
    "trail_of (trails W) (JStr ''U'') = [(10, 20)]"
    by (simp_all add: W_def trail_of_def same_key_def)
  from trail_cap_fifo [where s = W and frames = fs and k = "JStr ''U''" and buf = "[0..<201]"
      and t = JNull and p = "(0, 0)"] cap ap oldW
  have 2: "trails_capped (trails (ws_run W fs))"
    "map_get (trails (ws_run W fs)) (JStr ''U'') = Some [(10, 20), (11, 21), (12, 22)]"
    "trim [0..<201] = [1..<201]" "length (trim [0..<201]) = 200"
    by (simp_all add: window_def)
  from 1 have 3: "trail_of (trails (applyTelemetry F t)) (JStr ''U'')
             = map (\<lambda>i. (real i, 0)) [1..<200] @ [(50, 60)]"
    by (simp only: old tl)
  have rW: "resolve_latlng W t = Some (50, 60)"
    by (simp add: t_def resolve_latlng_def)
  have short: "length (trail_of (trails W) (get t ''node_id'')) < 200"
    by (simp add: id oldW)
  have preW: "truthy (get t ''node_id'') \<and> \<not> is_ref (get t ''node_id'')
             \<and> resolve_latlng W t = Some (50, 60)"
    using rW by (simp add: id)
  from trail_cap_fifo [where s = W and t = t and p = "(50, 60)" and frames = "[]"
      and buf = "[]" and k = JNull]
  have "trail_of (trails (applyTelemetry W t)) (get t ''node_id'')
             = trail_of (trails W) (get t ''node_id'') @ [(50, 60)]"
    using preW short by blast
  then have 4: "trail_of (trails (applyTelemetry W t)) (JStr ''U'') = [(10, 20), (50, 60)]"
    by (simp add: id oldW)
  define u where "u = JObj [(''node_id'', JArr [JNum 7]),
         (''pos'', JObj [(''lat'', JNum 50), (''lon'', JNum 60)])]"
  have preU: "truthy (get u ''node_id'') \<and> is_ref (get u ''node_id'')
             \<and> resolve_latlng W u = Some (50, 60)"
    by (simp add: u_def resolve_latlng_def)
  from trail_cap_fifo [where s = W and t = u and p = "(50, 60)" and frames = "[]"
      and buf = "[]" and k = JNull]
  have "trails (applyTelemetry W u) = trails W @ [(get u ''node_id'', [(50, 60)])]"
    using preU by blast
  then have 5: "trails (applyTelemetry W u) = [(JStr ''U'', [(10, 20)]), (JArr [JNum 7], [(50, 60)])]"
    by (simp add: u_def W_def)
  from 3 2 4 5 show ?thesis
    unfolding F_def t_def W_def fs_def u_def by (simp del: upt.simps)
qed

section \<open>One record changes one entity\<close>

lemma map_get_map_set_same: "\<not> is_ref k \<Longrightarrow> map_get (map_set m k v) k = Some v"
  by (simp add: map_get_map_set same_key_def)

lemma map_get_map_set_other: "k' \<noteq> k \<Longrightarrow> map_get (map_set m k v) k' = map_get m k'"
  by (simp add: map_get_map_set same_key_def)

lemma upsertNode_byId:
  "byId (upsertNode s n) =
     (if truthy (get n ''node_id'') then map_set (byId s) (get n ''node_id'') n else byId s)"
  by (simp add: upsertNode_def Let_def)

text \<open>
  Claim C9.  A record with a truthy identifier and a resolvable position is stored under its
  identifier, and every entry of the entity map and of the trails under another key is left
  exactly as it was, in the same order; the anchor is untouched.  An identifier that is a
  string, a number or a boolean replaces the entry of that key or adds one; an identifier
  that is an object or an array (a fresh reference) always adds one.  The dashboard's
  \<^verbatim>\<open>upsertNode\<close> does the same on its map.
\<close>

theorem delta_changes_one_entity:
  "(truthy (get t ''node_id'') \<and> resolve_latlng s t \<noteq> None \<longrightarrow>
      filter (\<lambda>e. fst e \<noteq> get t ''node_id'') (drones (applyTelemetry s t))
        = filter (\<lambda>e. fst e \<noteq> get t ''node_id'') (drones s)
      \<and> filter (\<lambda>e. fst e \<noteq> get t ''node_id'') (trails (applyTelemetry s t))
        = filter (\<lambda>e. fst e \<noteq> get t ''node_id'') (trails s)
      \<and> (\<forall>k. k \<noteq> get t ''node_id'' \<longrightarrow>
            map_get (drones (applyTelemetry s t)) k = map_get (drones s) k
            \<and> map_get (trails (applyTelemetry s t)) k = map_get (trails s) k)
      \<and> (\<not> is_ref (get t ''node_id'') \<longrightarrow>
            map_get (drones (applyTelemetry s t)) (get t ''node_id'') = Some t)
      \<and> (is_ref (get t ''node_id'') \<longrightarrow>
            drones (applyTelemetry s t) = drones s @ [(get t ''node_id'', t)])
      \<and> anchorLat (applyTelemetry s t) = anchorLat s
      \<and> anchorLon (applyTelemetry s t) = anchorLon s)
   \<and> (truthy (get n ''node_id'') \<longrightarrow>
      filter (\<lambda>e. fst e \<noteq> get n ''node_id'') (byId (upsertNode a n))
        = filter (\<lambda>e. fst e \<noteq> get n ''node_id'') (byId a)
      \<and> (\<forall>k. k \<noteq> get n ''node_id'' \<longrightarrow> map_get (byId (upsertNode a n)) k = map_get (byId a) k)
      \<and> (\<not> is_ref (get n ''node_id'') \<longrightarrow>
            map_get (byId (upsertNode a n)) (get n ''node_id'') = Some n)
      \<and> (is_ref (get n ''node_id'') \<longrightarrow>
            byId (upsertNode a n) = byId a @ [(get n ''node_id'', n)]))"
proof (intro conjI impI)
  assume h: "truthy (get t ''node_id'') \<and> resolve_latlng s t \<noteq> None"
  then obtain p where p: "resolve_latlng s t = Some p" by blast
  from h have tt: "truthy t" by (blast intro: truthy_get)
  let ?id = "get t ''node_id''"
  let ?s' = "applyTelemetry s t"
  have d: "drones ?s' = map_set (drones s) ?id t"
    using h tt by (simp add: applyTelemetry_drones)
  have tr: "trails ?s' = map_set (trails s) ?id
      (trim ((case map_get (trails s) ?id of Some b \<Rightarrow> b | None \<Rightarrow> []) @ [p]))"
    using h tt p by (simp add: applyTelemetry_trails)
  show "filter (\<lambda>e. fst e \<noteq> ?id) (drones ?s') = filter (\<lambda>e. fst e \<noteq> ?id) (drones s)"
    unfolding d by (cases "is_ref ?id") (simp_all add: filter_map_set_other map_set_ref)
  show "filter (\<lambda>e. fst e \<noteq> ?id) (trails ?s') = filter (\<lambda>e. fst e \<noteq> ?id) (trails s)"
    unfolding tr by (cases "is_ref ?id") (simp_all add: filter_map_set_other map_set_ref)
  show "\<forall>k. k \<noteq> ?id \<longrightarrow> map_get (drones ?s') k = map_get (drones s) k
            \<and> map_get (trails ?s') k = map_get (trails s) k"
    unfolding d tr by (simp add: map_get_map_set_other)
  show "map_get (drones ?s') ?id = Some t" if "\<not> is_ref ?id"
    unfolding d using that by (rule map_get_map_set_same)
  show "drones ?s' = drones s @ [(?id, t)]" if "is_ref ?id"
    unfolding d using that by (rule map_set_ref)
  show "anchorLat ?s' = anchorLat s" "anchorLon ?s' = anchorLon s"
    by (simp_all add: applyTelemetry_anchor)
next
  assume h: "truthy (get n ''node_id'')"
  let ?id = "get n ''node_id''"
  have b: "byId (upsertNode a n) = map_set (byId a) ?id n"
    using h by (simp add: upsertNode_byId)
  show "filter (\<lambda>e. fst e \<noteq> ?id) (byId (upsertNode a n)) = filter (\<lambda>e. fst e \<noteq> ?id) (byId a)"
    unfolding b by (cases "is_ref ?id") (simp_all add: filter_map_set_other map_set_ref)
  show "\<forall>k. k \<noteq> ?id \<longrightarrow> map_get (byId (upsertNode a n)) k = map_get (byId a) k"
    unfolding b by (simp add: map_get_map_set_other)
  show "map_get (byId (upsertNode a n)) ?id = Some n" if "\<not> is_ref ?id"
    unfolding b using that by (rule map_get_map_set_same)
  show "byId (upsertNode a n) = byId a @ [(?id, n)]" if "is_ref ?id"
    unfolding b using that by (rule map_set_ref)
qed

theorem delta_changes_one_entity_witness:
  "drones (applyTelemetry
      \<lparr>anchorLat = 39.9334, anchorLon = 32.8597,
         drones = [(JStr ''A'', JObj [(''node_id'', JStr ''A'')]),
                   (JStr ''B'', JObj [(''node_id'', JStr ''B''), (''state'', JStr ''HOLD'')])],
         trails = [(JStr ''B'', [(1, 2)])], selectedNodeId = JStr ''B''\<rparr>
      (JObj [(''node_id'', JStr ''A''), (''pos'', JObj [(''lat'', JNum 10), (''lon'', JNum 20)])]))
     = [(JStr ''A'', JObj [(''node_id'', JStr ''A''), (''pos'', JObj [(''lat'', JNum 10), (''lon'', JNum 20)])]),
        (JStr ''B'', JObj [(''node_id'', JStr ''B''), (''state'', JStr ''HOLD'')])]
   \<and> trails (applyTelemetry
      \<lparr>anchorLat = 39.9334, anchorLon = 32.8597,
         drones = [(JStr ''A'', JObj [(''node_id'', JStr ''A'')]),
                   (JStr ''B'', JObj [(''node_id'', JStr ''B''), (''state'', JStr ''HOLD'')])],
         trails = [(JStr ''B'', [(1, 2)])], selectedNodeId = JStr ''B''\<rparr>
      (JObj [(''node_id'', JStr ''A''), (''pos'', JObj [(''lat'', JNum 10), (''lon'', JNum 20)])]))
     = [(JStr ''B'', [(1, 2)]), (JStr ''A'', [(10, 20)])]
   \<and> byId (upsertNode
      \<lparr>byId = [(JStr ''B'', JObj [(''node_id'', JStr ''B'')])],
         nodes = [JObj [(''node_id'', JStr ''B'')]], mission = JNull, err = None\<rparr>
      (JObj [(''node_id'', JStr ''A'')]))
     = [(JStr ''B'', JObj [(''node_id'', JStr ''B'')]), (JStr ''A'', JObj [(''node_id'', JStr ''A'')])]"
proof -
  define W where "W = \<lparr>anchorLat = 39.9334, anchorLon = 32.8597,
         drones = [(JStr ''A'', JObj [(''node_id'', JStr ''A'')]),
                   (JStr ''B'', JObj [(''node_id'', JStr ''B''), (''state'', JStr ''HOLD'')])],
         trails = [(JStr ''B'', [(1, 2)])], selectedNodeId = JStr ''B''\<rparr>"
  define t where "t = JObj [(''node_id'', JStr ''A''),
         (''pos'', JObj [(''lat'', JNum 10), (''lon'', JNum 20)])]"
  define V where "V = \<lparr>byId = [(JStr ''B'', JObj [(''node_id'', JStr ''B'')])],
         nodes = [JObj [(''node_id'', JStr ''B'')]], mission = JNull, err = None\<rparr>"
  define n where "n = JObj [(''node_id'', JStr ''A'')]"
  have id: "get t ''node_id'' = JStr ''A''" "get n ''node_id'' = JStr ''A''"
    by (simp_all add: t_def n_def)
  have r: "resolve_latlng W t \<noteq> None"
    by (simp add: t_def resolve_latlng_def)
  have others:
    "filter (\<lambda>e. fst e \<noteq> JStr ''A'') (drones W)
       = [(JStr ''B'', JObj [(''node_id'', JStr ''B''), (''state'', JStr ''HOLD'')])]"
    "filter (\<lambda>e. fst e \<noteq> JStr ''A'') (trails W) = [(JStr ''B'', [(1, 2)])]"
    "filter (\<lambda>e. fst e \<noteq> JStr ''A'') (byId V) = [(JStr ''B'', JObj [(''node_id'', JStr ''B'')])]"
    by (simp_all add: W_def V_def)
  from delta_changes_one_entity [of t W n V] id r others
  have kept:
    "filter (\<lambda>e. fst e \<noteq> JStr ''A'') (drones (applyTelemetry W t))
       = [(JStr ''B'', JObj [(''node_id'', JStr ''B''), (''state'', JStr ''HOLD'')])]"
    "filter (\<lambda>e. fst e \<noteq> JStr ''A'') (trails (applyTelemetry W t)) = [(JStr ''B'', [(1, 2)])]"
    "filter (\<lambda>e. fst e \<noteq> JStr ''A'') (byId (upsertNode V n))
       = [(JStr ''B'', JObj [(''node_id'', JStr ''B'')])]"
    "map_get (drones (applyTelemetry W t)) (JStr ''A'') = Some t"
    "map_get (byId (upsertNode V n)) (JStr ''A'') = Some n"
    by simp_all
  have "drones (applyTelemetry W t)
          = [(JStr ''A'', t), (JStr ''B'', JObj [(''node_id'', JStr ''B''), (''state'', JStr ''HOLD'')])]"
    by (simp add: applyTelemetry_drones W_def t_def same_key_def)
  moreover have "trails (applyTelemetry W t) = [(JStr ''B'', [(1, 2)]), (JStr ''A'', [(10, 20)])]"
    by (simp add: applyTelemetry_trails W_def t_def same_key_def resolve_latlng_def trim_eq_drop)
  moreover have "byId (upsertNode V n)
          = [(JStr ''B'', JObj [(''node_id'', JStr ''B'')]), (JStr ''A'', n)]"
    by (simp add: upsertNode_byId V_def n_def same_key_def)
  ultimately show ?thesis
    using kept unfolding W_def t_def V_def n_def by simp
qed

section \<open>A record without a position\<close>

lemma has_position_eq:
  "has_position t =
     ((isNumber (get (get t ''pos'') ''lat'') \<and> isNumber (get (get t ''pos'') ''lon''))
      \<or> (isNumber (get (get t ''pos'') ''x'') \<and> isNumber (get (get t ''pos'') ''y''))
      \<or> (isNumber (get t ''x'') \<and> isNumber (get t ''y'')))"
  by (simp add: has_position_def geo_form_eq planar_form_eq bare_form_eq)

lemma resolve_latlng_None: "(resolve_latlng s t = None) = (\<not> has_position t)"
  unfolding has_position_eq resolve_latlng_def
  using isNumber_get_truthy [of "get t ''pos''"] by auto

text \<open>
  Claim C2, as the code has it.  A record with a truthy identifier and none of the three
  position forms is still stored in the entity map under its identifier (replacing the
  entry of that key, or added); only the trails and the selection are left as they were,
  and so is the anchor.  The dashboard's \<^verbatim>\<open>upsertNode\<close> never looks at the position.
\<close>

theorem delta_without_position:
  "truthy (get t ''node_id'') \<and> \<not> has_position t \<longrightarrow>
     applyTelemetry s t = s\<lparr>drones := map_set (drones s) (get t ''node_id'') t\<rparr>
     \<and> trails (applyTelemetry s t) = trails s
     \<and> selectedNodeId (applyTelemetry s t) = selectedNodeId s
     \<and> anchorLat (applyTelemetry s t) = anchorLat s
     \<and> anchorLon (applyTelemetry s t) = anchorLon s
     \<and> (\<not> is_ref (get t ''node_id'') \<longrightarrow>
          map_get (drones (applyTelemetry s t)) (get t ''node_id'') = Some t)
     \<and> byId (upsertNode a t) = map_set (byId a) (get t ''node_id'') t"
proof
  assume h: "truthy (get t ''node_id'') \<and> \<not> has_position t"
  then have tt: "truthy t" by (blast intro: truthy_get)
  from h have r: "resolve_latlng s t = None" by (simp add: resolve_latlng_None)
  have e: "applyTelemetry s t = s\<lparr>drones := map_set (drones s) (get t ''node_id'') t\<rparr>"
    using h tt r by (simp add: applyTelemetry_def)
  show "applyTelemetry s t = s\<lparr>drones := map_set (drones s) (get t ''node_id'') t\<rparr>
     \<and> trails (applyTelemetry s t) = trails s
     \<and> selectedNodeId (applyTelemetry s t) = selectedNodeId s
     \<and> anchorLat (applyTelemetry s t) = anchorLat s
     \<and> anchorLon (applyTelemetry s t) = anchorLon s
     \<and> (\<not> is_ref (get t ''node_id'') \<longrightarrow>
          map_get (drones (applyTelemetry s t)) (get t ''node_id'') = Some t)
     \<and> byId (upsertNode a t) = map_set (byId a) (get t ''node_id'') t"
    unfolding e using h by (simp add: map_get_map_set_same upsertNode_byId)
qed

theorem delta_without_position_witness:
  "applyTelemetry fm_init (JObj [(''node_id'', JStr ''A''), (''state'', JStr ''HOLD'')])
     = fm_init\<lparr>drones := [(JStr ''A'', JObj [(''node_id'', JStr ''A''), (''state'', JStr ''HOLD'')])]\<rparr>"
proof -
  define t where "t = JObj [(''node_id'', JStr ''A''), (''state'', JStr ''HOLD'')]"
  have h: "truthy (get t ''node_id'')" "\<not> has_position t" "get t ''node_id'' = JStr ''A''"
    by (simp_all add: t_def has_position_eq)
  have d: "drones fm_init = []"
    by (simp add: fm_init_def)
  from delta_without_position [of t fm_init] h d
  have "applyTelemetry fm_init t = fm_init\<lparr>drones := [(JStr ''A'', t)]\<rparr>"
    by simp
  then show ?thesis
    unfolding t_def .
qed

text \<open>
  On the empty store the record \<^verbatim>\<open>{"node_id": "A"}\<close> resolves to no position and is stored
  all the same, also when it arrives as a frame.
\<close>

theorem delta_without_position_stored:
  "drones (applyTelemetry fm_init (JObj [(''node_id'', JStr ''A'')]))
     = [(JStr ''A'', JObj [(''node_id'', JStr ''A'')])]
   \<and> drones fm_init = []
   \<and> resolve_latlng fm_init (JObj [(''node_id'', JStr ''A'')]) = None
   \<and> applyTelemetry fm_init (JObj [(''node_id'', JStr ''A'')]) \<noteq> fm_init
   \<and> classify (JObj [(''node_id'', JStr ''A'')]) = ToDelta (JObj [(''node_id'', JStr ''A'')])
   \<and> drones (ws_onmessage fm_init (Some (JObj [(''node_id'', JStr ''A'')])))
     = [(JStr ''A'', JObj [(''node_id'', JStr ''A'')])]"
  by (simp add: applyTelemetry_def resolve_latlng_def fm_init_def classify_def ws_onmessage_def)

section \<open>Automatic selection\<close>

lemma applyTelemetry_selectable:
  "selectedNodeId (applyTelemetry s t) =
     (if \<not> truthy (selectedNodeId s) \<and> selectable t then get t ''node_id''
      else selectedNodeId s)"
  unfolding applyTelemetry_selected selectable_def
  using truthy_get [of t "''node_id''"] resolve_latlng_None [of s t] by auto

lemma foldl_applyTelemetry_selected:
  "selectedNodeId (foldl applyTelemetry s ns) =
     (if truthy (selectedNodeId s) then selectedNodeId s
      else case find selectable ns of
             Some t \<Rightarrow> get t ''node_id''
           | None \<Rightarrow> selectedNodeId s)"
proof (induction ns arbitrary: s)
  case Nil
  show ?case by simp
next
  case (Cons n ns)
  have id: "truthy (get n ''node_id'')" if "selectable n"
    using that by (simp add: selectable_def)
  show ?case
    unfolding foldl_Cons Cons [of "applyTelemetry s n"] applyTelemetry_selectable
    using id by (cases "selectable n") simp_all
qed

lemma ws_onmessage_selected:
  "selectedNodeId (ws_onmessage s parsed) =
     (if truthy (selectedNodeId s) then selectedNodeId s
      else case find selectable (delivered parsed) of
             Some t \<Rightarrow> get t ''node_id''
           | None \<Rightarrow> selectedNodeId s)"
proof (cases parsed)
  case None
  then show ?thesis by (simp add: ws_onmessage_def delivered_def)
next
  case (Some msg)
  show ?thesis
  proof (cases "classify msg")
    case (ToSnapshot ns)
    with Some show ?thesis
      by (simp add: ws_onmessage_def delivered_def foldl_applyTelemetry_selected)
  next
    case (ToMission m)
    with Some show ?thesis
      by (simp add: ws_onmessage_def delivered_def drawMissionOverlay_frame)
  next
    case (ToDelta t)
    with Some show ?thesis
      by (simp add: ws_onmessage_def delivered_def applyTelemetry_selectable selectable_def)
  next
    case Ignored
    with Some show ?thesis
      by (simp add: ws_onmessage_def delivered_def)
  qed
qed

lemma find_app:
  "find P (xs @ ys) = (case find P xs of Some x \<Rightarrow> Some x | None \<Rightarrow> find P ys)"
  by (induction xs) simp_all

lemma find_selectable_id:
  "find selectable xs = Some t \<Longrightarrow> truthy (get t ''node_id'')"
  by (induction xs) (auto simp: selectable_def split: if_splits)

lemma ws_run_selected:
  "selectedNodeId (ws_run s frames) =
     (if truthy (selectedNodeId s) then selectedNodeId s
      else case find selectable (concat (map delivered frames)) of
             Some t \<Rightarrow> get t ''node_id''
           | None \<Rightarrow> selectedNodeId s)"
  unfolding ws_run_def
proof (induction frames arbitrary: s)
  case Nil
  show ?case by simp
next
  case (Cons f fs)
  show ?case
  proof (cases "truthy (selectedNodeId s)")
    case True
    then show ?thesis
      unfolding foldl_Cons Cons [of "ws_onmessage s f"] ws_onmessage_selected by simp
  next
    case False
    show ?thesis
    proof (cases "find selectable (delivered f)")
      case None
      with False show ?thesis
        unfolding foldl_Cons Cons [of "ws_onmessage s f"] ws_onmessage_selected
        by (simp add: find_app split: option.splits)
    next
      case (Some t)
      with False find_selectable_id [OF Some] show ?thesis
        unfolding foldl_Cons Cons [of "ws_onmessage s f"] ws_onmessage_selected
        by (simp add: find_app)
    qed
  qed
qed

lemma ws_onmessage_selected_truthy:
  assumes "truthy (selectedNodeId s) \<or> selectedNodeId (ws_onmessage s f) \<noteq> selectedNodeId s"
  shows "truthy (selectedNodeId (ws_onmessage s f))"
proof (cases "truthy (selectedNodeId s)")
  case True
  then show ?thesis by (simp add: ws_onmessage_selected)
next
  case False
  with assms have ch: "selectedNodeId (ws_onmessage s f) \<noteq> selectedNodeId s" by simp
  show ?thesis
  proof (cases "find selectable (delivered f)")
    case None
    with False ch show ?thesis by (simp add: ws_onmessage_selected)
  next
    case (Some t)
    with False find_selectable_id [OF Some] show ?thesis
      by (simp add: ws_onmessage_selected)
  qed
qed

lemma count_fires_bound:
  "count_fires s evs \<le> (if truthy (selectedNodeId s) then 0 else 1) + count_clears s evs"
proof (induction evs arbitrary: s)
  case Nil
  show ?case by simp
next
  case (Cons ev evs)
  note IH = Cons [of "ui_step s ev"]
  show ?case
  proof (cases ev)
    case (Frame f)
    show ?thesis
    proof (cases "truthy (selectedNodeId s)")
      case True
      then have "selectedNodeId (ws_onmessage s f) = selectedNodeId s"
        by (simp add: ws_onmessage_selected)
      with True IH Frame show ?thesis by simp
    next
      case False
      show ?thesis
      proof (cases "selectedNodeId (ws_onmessage s f) = selectedNodeId s")
        case True
        with False IH Frame show ?thesis by simp
      next
        case changed: False
        then have "truthy (selectedNodeId (ws_onmessage s f))"
          by (simp add: ws_onmessage_selected_truthy)
        with False changed IH Frame show ?thesis by simp
      qed
    qed
  next
    case (MarkerClick i)
    with IH show ?thesis
      by (cases "truthy (selectedNodeId (ui_step s ev))") (simp_all split: if_splits)
  next
    case (ListClick a)
    with IH show ?thesis
      by (cases "truthy (selectedNodeId (ui_step s ev))") (simp_all split: if_splits)
  qed
qed

text \<open>Every key of \<open>trails\<close> was a truthy identifier when it was stored.\<close>

lemma applyTelemetry_trail_keys:
  "\<forall>k \<in> set (map_keys (trails s)). truthy k \<Longrightarrow>
     \<forall>k \<in> set (map_keys (trails (applyTelemetry s t))). truthy k"
  by (auto simp: applyTelemetry_trails set_map_keys_map_set split: option.splits if_splits)

lemma foldl_applyTelemetry_trail_keys:
  "\<forall>k \<in> set (map_keys (trails s)). truthy k \<Longrightarrow>
     \<forall>k \<in> set (map_keys (trails (foldl applyTelemetry s ns))). truthy k"
proof (induction ns arbitrary: s)
  case Nil
  then show ?case by simp
next
  case (Cons n ns)
  from Cons.IH [OF applyTelemetry_trail_keys [OF Cons.prems]] show ?case by simp
qed

lemma ui_step_trail_keys:
  assumes "\<forall>k \<in> set (map_keys (trails s)). truthy k"
  shows "\<forall>k \<in> set (map_keys (trails (ui_step s ev))). truthy k"
proof (cases ev)
  case (Frame f)
  show ?thesis
  proof (cases f)
    case None
    with Frame assms show ?thesis by (simp add: ws_onmessage_def)
  next
    case (Some msg)
    with Frame assms foldl_applyTelemetry_trail_keys [OF assms]
      applyTelemetry_trail_keys [OF assms]
    show ?thesis
      by (cases "classify msg") (simp_all add: ws_onmessage_def drawMissionOverlay_frame)
  qed
next
  case (MarkerClick i)
  with assms show ?thesis by (simp add: marker_click_def)
next
  case (ListClick a)
  with assms show ?thesis by (simp add: list_click_def)
qed

lemma count_clears_bound:
  "\<forall>k \<in> set (map_keys (trails s)). truthy k \<Longrightarrow>
     count_clears s evs \<le> count_list evs (ListClick [])"
proof (induction evs arbitrary: s)
  case Nil
  show ?case by simp
next
  case (Cons ev evs)
  note IH = Cons.IH [OF ui_step_trail_keys [OF Cons.prems, of ev]]
  show ?case
  proof (cases ev)
    case (Frame f)
    with IH show ?thesis by simp
  next
    case (MarkerClick i)
    have "truthy (fst (trails s ! i))" if "i < length (trails s)"
      using that Cons.prems by (simp add: map_keys_def)
    then have "\<not> clears s ev"
      using MarkerClick by (auto simp: marker_click_def)
    with IH MarkerClick show ?thesis by auto
  next
    case (ListClick a)
    with IH show ?thesis by (cases "a = []") (auto simp: list_click_def)
  qed
qed

text \<open>
  Claim C4, as the code has it.  While the selection is empty (falsy), the first record
  handed to \<^verbatim>\<open>applyTelemetry\<close> that has both a truthy identifier and a resolvable position
  becomes the selection; a record stored without a position does not.  A truthy selection is
  never changed by a frame.  A click of the operator assigns the selection; it clears it only
  when a list button's \<^verbatim>\<open>data-id\<close> reads as the empty string.  Over a session of frames and
  clicks the rule fires at most once, plus once for every time the selection was cleared; after
  a clearing the next record with an identifier and a position is selected.
\<close>

theorem auto_selection:
  "selectedNodeId (ws_run s frames) =
     (if truthy (selectedNodeId s) then selectedNodeId s
      else case find selectable (concat (map delivered frames)) of
             Some t \<Rightarrow> get t ''node_id''
           | None \<Rightarrow> selectedNodeId s)
   \<and> selectedNodeId (applyTelemetry s t) =
     (if \<not> truthy (selectedNodeId s) \<and> truthy (get t ''node_id'') \<and> has_position t
      then get t ''node_id'' else selectedNodeId s)
   \<and> (truthy (selectedNodeId s) \<longrightarrow> truthy (selectedNodeId (ws_run s frames)))
   \<and> selectedNodeId (list_click s data_id) = JStr data_id
   \<and> selectedNodeId (marker_click s i) =
     (if i < length (trails s) then fst (trails s ! i) else selectedNodeId s)
   \<and> count_fires s evs \<le> (if truthy (selectedNodeId s) then 0 else 1) + count_clears s evs
   \<and> count_fires fm_init evs \<le> 1 + count_list evs (ListClick [])
   \<and> selectedNodeId (ws_run (list_click s []) frames) =
     (case find selectable (concat (map delivered frames)) of
        Some t \<Rightarrow> get t ''node_id''
      | None \<Rightarrow> JStr [])"
proof (intro conjI)
  show "selectedNodeId (ws_run s frames) =
     (if truthy (selectedNodeId s) then selectedNodeId s
      else case find selectable (concat (map delivered frames)) of
             Some t \<Rightarrow> get t ''node_id''
           | None \<Rightarrow> selectedNodeId s)"
    by (rule ws_run_selected)
  then show "truthy (selectedNodeId s) \<longrightarrow> truthy (selectedNodeId (ws_run s frames))"
    by simp
  show "selectedNodeId (applyTelemetry s t) =
     (if \<not> truthy (selectedNodeId s) \<and> truthy (get t ''node_id'') \<and> has_position t
      then get t ''node_id'' else selectedNodeId s)"
    using applyTelemetry_selectable [of s t] by (simp add: selectable_def)
  show "selectedNodeId (list_click s data_id) = JStr data_id"
    by (simp add: list_click_def)
  show "selectedNodeId (marker_click s i) =
     (if i < length (trails s) then fst (trails s ! i) else selectedNodeId s)"
    by (simp add: marker_click_def)
  show "count_fires s evs \<le> (if truthy (selectedNodeId s) then 0 else 1) + count_clears s evs"
    by (rule count_fires_bound)
  have "\<forall>k \<in> set (map_keys (trails fm_init)). truthy k"
    by (simp add: fm_init_def map_keys_def)
  from count_clears_bound [OF this, of evs] count_fires_bound [of fm_init evs]
  show "count_fires fm_init evs \<le> 1 + count_list evs (ListClick [])"
    by (simp add: fm_init_def)
  show "selectedNodeId (ws_run (list_click s []) frames) =
     (case find selectable (concat (map delivered frames)) of
        Some t \<Rightarrow> get t ''node_id''
      | None \<Rightarrow> JStr [])"
    by (simp add: ws_run_selected list_click_def split: option.splits)
qed

theorem auto_selection_witness:
  "selectedNodeId (ws_run fm_init
     [Some (JObj [(''node_id'', JStr ''A'')]),
      Some (JObj [(''node_id'', JStr ''B''), (''x'', JNum 0), (''y'', JNum 0)]),
      Some (JObj [(''node_id'', JStr ''C''), (''pos'', JObj [(''lat'', JNum 1), (''lon'', JNum 2)])])])
     = JStr ''B''
   \<and> selectedNodeId (ws_run (fm_init\<lparr>selectedNodeId := JStr ''Z''\<rparr>)
     [Some (JObj [(''node_id'', JStr ''A'')]),
      Some (JObj [(''node_id'', JStr ''B''), (''x'', JNum 0), (''y'', JNum 0)]),
      Some (JObj [(''node_id'', JStr ''C''), (''pos'', JObj [(''lat'', JNum 1), (''lon'', JNum 2)])])])
     = JStr ''Z''
   \<and> count_fires fm_init
     [Frame (Some (JObj [(''node_id'', JStr ''B''), (''pos'', JObj [(''lat'', JNum 3), (''lon'', JNum 4)])])),
      Frame (Some (JObj [(''node_id'', JStr ''C''), (''pos'', JObj [(''lat'', JNum 1), (''lon'', JNum 2)])])),
      MarkerClick 1]
     = 1
   \<and> selectedNodeId (ui_run fm_init
     [Frame (Some (JObj [(''node_id'', JStr ''B''), (''pos'', JObj [(''lat'', JNum 3), (''lon'', JNum 4)])])),
      Frame (Some (JObj [(''node_id'', JStr ''C''), (''pos'', JObj [(''lat'', JNum 1), (''lon'', JNum 2)])])),
      MarkerClick 1])
     = JStr ''C''
   \<and> selectedNodeId (ws_run (list_click (fm_init\<lparr>selectedNodeId := JStr ''Z''\<rparr>) [])
     [Some (JObj [(''node_id'', JStr ''A'')]),
      Some (JObj [(''node_id'', JStr ''B''), (''x'', JNum 0), (''y'', JNum 0)]),
      Some (JObj [(''node_id'', JStr ''C''), (''pos'', JObj [(''lat'', JNum 1), (''lon'', JNum 2)])])])
     = JStr ''B''"
proof -
  define fs where "fs =
     [Some (JObj [(''node_id'', JStr ''A'')]),
      Some (JObj [(''node_id'', JStr ''B''), (''x'', JNum 0), (''y'', JNum 0)]),
      Some (JObj [(''node_id'', JStr ''C''), (''pos'', JObj [(''lat'', JNum 1), (''lon'', JNum 2)])])]"
  define evs where "evs =
     [Frame (Some (JObj [(''node_id'', JStr ''B''), (''pos'', JObj [(''lat'', JNum 3), (''lon'', JNum 4)])])),
      Frame (Some (JObj [(''node_id'', JStr ''C''), (''pos'', JObj [(''lat'', JNum 1), (''lon'', JNum 2)])])),
      MarkerClick 1]"
  define Z where "Z = fm_init\<lparr>selectedNodeId := JStr ''Z''\<rparr>"
  have d: "concat (map delivered fs) =
     [JObj [(''node_id'', JStr ''A'')],
      JObj [(''node_id'', JStr ''B''), (''x'', JNum 0), (''y'', JNum 0)],
      JObj [(''node_id'', JStr ''C''), (''pos'', JObj [(''lat'', JNum 1), (''lon'', JNum 2)])]]"
    by (simp add: fs_def delivered_def classify_def)
  have f: "find selectable (concat (map delivered fs))
             = Some (JObj [(''node_id'', JStr ''B''), (''x'', JNum 0), (''y'', JNum 0)])"
    unfolding d by (simp add: selectable_def has_position_eq)
  have n: "\<not> truthy (selectedNodeId fm_init)"
    by (simp add: fm_init_def)
  from auto_selection [of fm_init fs _ _ _ evs] n f
  have 1: "selectedNodeId (ws_run fm_init fs) = JStr ''B''"
    by simp
  have z: "truthy (selectedNodeId Z)" "selectedNodeId Z = JStr ''Z''"
    by (simp_all add: Z_def)
  from auto_selection [of Z fs _ _ _ evs] z f
  have 2: "selectedNodeId (ws_run Z fs) = JStr ''Z''"
    "selectedNodeId (ws_run (list_click Z []) fs) = JStr ''B''"
    by simp_all
  have c: "count_list evs (ListClick []) = 0"
    by (simp add: evs_def)
  from auto_selection [of fm_init fs _ _ _ evs] c
  have le: "count_fires fm_init evs \<le> 1"
    by simp
  have run: "ui_run fm_init evs =
      \<lparr>anchorLat = 39.9334, anchorLon = 32.8597,
         drones = [(JStr ''B'', JObj [(''node_id'', JStr ''B''), (''pos'', JObj [(''lat'', JNum 3), (''lon'', JNum 4)])]),
                   (JStr ''C'', JObj [(''node_id'', JStr ''C''), (''pos'', JObj [(''lat'', JNum 1), (''lon'', JNum 2)])])],
         trails = [(JStr ''B'', [(3, 4)]), (JStr ''C'', [(1, 2)])],
         selectedNodeId = JStr ''C''\<rparr>"
    by (simp add: evs_def ui_run_def ws_onmessage_def classify_def applyTelemetry_def
        resolve_latlng_def fm_init_def same_key_def trim_eq_drop marker_click_def)
  have "1 \<le> count_fires fm_init evs"
    by (simp add: evs_def ws_onmessage_def classify_def applyTelemetry_def
        resolve_latlng_def fm_init_def same_key_def trim_eq_drop)
  with le have 3: "count_fires fm_init evs = 1"
    by simp
  from 1 2 3 run show ?thesis
    unfolding fs_def evs_def Z_def by simp
qed

text \<open>
  The first entity observed, A, reports no position: it is stored and nothing is selected.
  B, observed after it with a position, becomes the selection.
\<close>

theorem first_observed_not_selected:
  "map_keys (drones (ws_run fm_init
     [Some (JObj [(''node_id'', JStr ''A'')]),
      Some (JObj [(''node_id'', JStr ''B''), (''pos'', JObj [(''lat'', JNum 10), (''lon'', JNum 20)])])]))
     = [JStr ''A'', JStr ''B'']
   \<and> selectedNodeId (ws_run fm_init [Some (JObj [(''node_id'', JStr ''A'')])]) = JNull
   \<and> map_keys (drones (ws_run fm_init [Some (JObj [(''node_id'', JStr ''A'')])])) = [JStr ''A'']
   \<and> selectedNodeId (ws_run fm_init
     [Some (JObj [(''node_id'', JStr ''A'')]),
      Some (JObj [(''node_id'', JStr ''B''), (''pos'', JObj [(''lat'', JNum 10), (''lon'', JNum 20)])])])
     = JStr ''B''"
  by (simp add: ws_run_def ws_onmessage_def classify_def applyTelemetry_def resolve_latlng_def
      fm_init_def same_key_def map_keys_def trim_eq_drop)

section \<open>Snapshots\<close>

lemma foldl_applyTelemetry_keys:
  "set (map_keys (drones (foldl applyTelemetry s ns))) =
     set (map_keys (drones s)) \<union> set (filter truthy (map (\<lambda>n. get n ''node_id'') ns))"
proof (induction ns arbitrary: s)
  case Nil
  show ?case by simp
next
  case (Cons n ns)
  have step: "set (map_keys (drones (applyTelemetry s n))) =
      (if truthy (get n ''node_id'') then insert (get n ''node_id'') (set (map_keys (drones s)))
       else set (map_keys (drones s)))"
    using truthy_get [of n "''node_id''"]
    by (auto simp: applyTelemetry_drones set_map_keys_map_set)
  show ?case
    unfolding foldl_Cons Cons [of "applyTelemetry s n"] step
    by auto
qed

lemma foldl_map_set_keys:
  "set (map_keys (foldl (\<lambda>m n. map_set m (f n) n) m0 xs)) = set (map_keys m0) \<union> f ` set xs"
  by (induction xs arbitrary: m0) (auto simp: set_map_keys_map_set)

lemma setSnapshot_ok:
  "(\<exists>a'. setSnapshot a arr = Inr a') =
     ((\<not> truthy arr \<or> isArray arr) \<and> JNull \<notin> set (elems arr) \<and> JUndefined \<notin> set (elems arr))"
  by (cases arr) (auto simp: setSnapshot_def Let_def)

lemma setSnapshot_Inr:
  assumes "setSnapshot a arr = Inr a'"
  shows "byId a' = foldl (\<lambda>m n. map_set m (get n ''node_id'') n) [] (elems arr)"
    and "nodes a' = map_values (byId a')"
    and "mission a' = mission a" and "err a' = err a"
  using assms by (cases arr; auto simp: setSnapshot_def Let_def split: if_splits)+

text \<open>
  Claim C1, as the code has it.  In the map client a snapshot frame hands each of its
  records to \<^verbatim>\<open>applyTelemetry\<close>: afterwards the keys of the entity map are the keys it had
  before together with the truthy identifiers of the snapshot, and nothing is dropped.  In
  the dashboard \<^verbatim>\<open>setSnapshot\<close> builds a new map: when it returns (the value is absent or an
  array without \<^verbatim>\<open>null\<close>), the keys are exactly the \<^verbatim>\<open>node_id\<close> values of the snapshot's
  records, whatever the map held before, and the node list is the map's values; otherwise it
  throws, the handler reports the error and the map stays as it was.
\<close>

theorem snapshot_entity_set:
  "(classify msg = ToSnapshot ns \<longrightarrow>
      set (map_keys (drones (ws_onmessage s (Some msg)))) =
        set (map_keys (drones s)) \<union> set (filter truthy (map (\<lambda>n. get n ''node_id'') ns)))
   \<and> (setSnapshot a arr = Inr a' \<longrightarrow>
        set (map_keys (byId a')) = (\<lambda>n. get n ''node_id'') ` set (elems arr)
        \<and> nodes a' = map_values (byId a') \<and> mission a' = mission a \<and> err a' = err a)
   \<and> ((\<exists>b. setSnapshot a arr = Inr b) =
        ((\<not> truthy arr \<or> isArray arr) \<and> JNull \<notin> set (elems arr) \<and> JUndefined \<notin> set (elems arr)))
   \<and> (app_classify msg = AppSnapshot arr \<longrightarrow>
        app_onmessage a (Some msg) =
          (case setSnapshot a arr of Inl e \<Rightarrow> a\<lparr>err := Some e\<rparr> | Inr b \<Rightarrow> b))"
proof (intro conjI impI)
  show "set (map_keys (drones (ws_onmessage s (Some msg)))) =
        set (map_keys (drones s)) \<union> set (filter truthy (map (\<lambda>n. get n ''node_id'') ns))"
    if "classify msg = ToSnapshot ns"
    using that by (simp add: ws_onmessage_def foldl_applyTelemetry_keys)
  show "(\<exists>b. setSnapshot a arr = Inr b) =
        ((\<not> truthy arr \<or> isArray arr) \<and> JNull \<notin> set (elems arr) \<and> JUndefined \<notin> set (elems arr))"
    by (rule setSnapshot_ok)
  show "app_onmessage a (Some msg) =
          (case setSnapshot a arr of Inl e \<Rightarrow> a\<lparr>err := Some e\<rparr> | Inr b \<Rightarrow> b)"
    if "app_classify msg = AppSnapshot arr"
    using that by (simp add: app_onmessage_def)
next
  assume ok: "setSnapshot a arr = Inr a'"
  show "set (map_keys (byId a')) = (\<lambda>n. get n ''node_id'') ` set (elems arr)"
    unfolding setSnapshot_Inr(1) [OF ok] foldl_map_set_keys by (simp add: map_keys_def)
  show "nodes a' = map_values (byId a')" "mission a' = mission a" "err a' = err a"
    using setSnapshot_Inr [OF ok] by simp_all
qed

theorem snapshot_entity_set_witness:
  "set (map_keys (drones (ws_onmessage
      \<lparr>anchorLat = 39.9334, anchorLon = 32.8597,
         drones = [(JStr ''A'', JObj [(''node_id'', JStr ''A'')])], trails = [],
         selectedNodeId = JNull\<rparr>
      (Some (JObj [(''type'', JStr ''snapshot''),
                   (''nodes'', JArr [JObj [(''node_id'', JStr ''B'')], JObj [(''state'', JStr ''HOLD'')]])])))))
     = {JStr ''A'', JStr ''B''}
   \<and> byId (app_onmessage
      \<lparr>byId = [(JStr ''A'', JObj [(''node_id'', JStr ''A'')])],
         nodes = [JObj [(''node_id'', JStr ''A'')]], mission = JNull, err = None\<rparr>
      (Some (JObj [(''type'', JStr ''snapshot''),
                   (''nodes'', JArr [JObj [(''node_id'', JStr ''B'')]])])))
     = [(JStr ''B'', JObj [(''node_id'', JStr ''B'')])]"
proof -
  define W where "W = \<lparr>anchorLat = 39.9334, anchorLon = 32.8597,
         drones = [(JStr ''A'', JObj [(''node_id'', JStr ''A'')])], trails = [],
         selectedNodeId = JNull\<rparr>"
  define V where "V = \<lparr>byId = [(JStr ''A'', JObj [(''node_id'', JStr ''A'')])],
         nodes = [JObj [(''node_id'', JStr ''A'')]], mission = JNull, err = None\<rparr>"
  define m1 where "m1 = JObj [(''type'', JStr ''snapshot''),
         (''nodes'', JArr [JObj [(''node_id'', JStr ''B'')], JObj [(''state'', JStr ''HOLD'')]])]"
  define m2 where "m2 = JObj [(''type'', JStr ''snapshot''),
         (''nodes'', JArr [JObj [(''node_id'', JStr ''B'')]])]"
  define V' where "V' = \<lparr>byId = [(JStr ''B'', JObj [(''node_id'', JStr ''B'')])],
         nodes = [JObj [(''node_id'', JStr ''B'')]], mission = JNull, err = None\<rparr>"
  have c1: "classify m1 = ToSnapshot [JObj [(''node_id'', JStr ''B'')], JObj [(''state'', JStr ''HOLD'')]]"
    by (simp add: m1_def classify_def)
  have c2: "app_classify m2 = AppSnapshot (JArr [JObj [(''node_id'', JStr ''B'')]])"
    by (simp add: m2_def app_classify_def)
  have ok: "setSnapshot V (JArr [JObj [(''node_id'', JStr ''B'')]]) = Inr V'"
    by (simp add: setSnapshot_def V_def V'_def map_values_def)
  have k: "set (map_keys (drones W)) = {JStr ''A''}"
    by (simp add: W_def map_keys_def)
  from snapshot_entity_set [of m1 _ W V _ V'] c1 k
  have 1: "set (map_keys (drones (ws_onmessage W (Some m1)))) = {JStr ''A'', JStr ''B''}"
    by auto
  from snapshot_entity_set [of m2 _ W V "JArr [JObj [(''node_id'', JStr ''B'')]]" V'] c2 ok
  have 2: "app_onmessage V (Some m2) = V'"
    by simp
  from 1 2 show ?thesis
    unfolding W_def V_def m1_def m2_def V'_def by simp
qed

text \<open>
  In the map client, after a delta for A, a snapshot that lists only B leaves A in the store.
\<close>

theorem snapshot_keeps_absent_entity:
  "map_keys (drones (ws_run fm_init
     [Some (JObj [(''node_id'', JStr ''A''), (''pos'', JObj [(''lat'', JNum 1), (''lon'', JNum 2)])]),
      Some (JObj [(''type'', JStr ''snapshot''),
                  (''nodes'', JArr [JObj [(''node_id'', JStr ''B''),
                                          (''pos'', JObj [(''lat'', JNum 10), (''lon'', JNum 20)])]])])]))
     = [JStr ''A'', JStr ''B'']
   \<and> classify (JObj [(''type'', JStr ''snapshot''),
                  (''nodes'', JArr [JObj [(''node_id'', JStr ''B''),
                                          (''pos'', JObj [(''lat'', JNum 10), (''lon'', JNum 20)])]])])
     = ToSnapshot [JObj [(''node_id'', JStr ''B''), (''pos'', JObj [(''lat'', JNum 10), (''lon'', JNum 20)])]]"
  by (simp add: ws_run_def ws_onmessage_def classify_def applyTelemetry_def resolve_latlng_def
      fm_init_def same_key_def map_keys_def trim_eq_drop)

section \<open>Classification of inbound frames\<close>

lemma get_truthy: "get msg k \<noteq> JUndefined \<Longrightarrow> truthy msg"
  by (cases msg) simp_all

lemma applyTelemetry_no_id: "\<not> truthy (get t ''node_id'') \<Longrightarrow> applyTelemetry s t = s"
  by (simp add: applyTelemetry_def)

lemma classify_eq:
  "classify msg =
     (if get msg ''type'' = JStr ''snapshot'' \<and> isArray (get msg ''nodes'')
        then ToSnapshot (elems (get msg ''nodes''))
      else if get msg ''type'' = JStr ''mission_update'' \<and> truthy (get msg ''mission'')
        then ToMission (get msg ''mission'')
      else if truthy (get msg ''node_id'') then ToDelta msg
      else Ignored)"
  using get_truthy [of msg "''type''"] truthy_get [of msg "''node_id''"]
  by (auto simp: classify_def)

lemma app_classify_eq:
  "app_classify msg =
     (if get msg ''type'' = JStr ''snapshot''
        then AppSnapshot (if truthy (get msg ''nodes'') then get msg ''nodes'' else JArr [])
      else if get msg ''type'' = JStr ''mission_update''
        then AppMission (if truthy (get msg ''mission'') then get msg ''mission'' else JNull)
      else AppDelta msg)"
  using get_truthy [of msg "''type''"]
  by (auto simp: app_classify_def)

text \<open>
  Claim C3, as the code has it.  A frame that does not parse leaves the map client's state
  as it was and reports nothing; in the dashboard with the mission panel it leaves the store
  as it was and sets the error banner.  Both test the type before the identifier.  The map
  client sends a message of type snapshot with an array of nodes to the snapshot branch and
  one of type mission_update with a truthy mission to the mission branch, whatever identifier
  it carries; every other message falls back to the identifier: it is applied as a delta when
  its identifier is truthy and changes nothing otherwise.  That dashboard sends every message
  of type snapshot to \<^verbatim>\<open>setSnapshot\<close> and every message of type mission_update to the mission,
  never to \<^verbatim>\<open>upsertNode\<close>; every other message goes to \<^verbatim>\<open>upsertNode\<close>, which stores it when
  its identifier is truthy and changes nothing otherwise.
\<close>

theorem frame_classification:
  "ws_onmessage s None = s
   \<and> classify msg =
       (if get msg ''type'' = JStr ''snapshot'' \<and> isArray (get msg ''nodes'')
          then ToSnapshot (elems (get msg ''nodes''))
        else if get msg ''type'' = JStr ''mission_update'' \<and> truthy (get msg ''mission'')
          then ToMission (get msg ''mission'')
        else if truthy (get msg ''node_id'') then ToDelta msg
        else Ignored)
   \<and> ws_onmessage s (Some msg) =
       (if get msg ''type'' = JStr ''snapshot'' \<and> isArray (get msg ''nodes'')
          then foldl applyTelemetry s (elems (get msg ''nodes''))
        else if get msg ''type'' = JStr ''mission_update'' \<and> truthy (get msg ''mission'')
          then drawMissionOverlay s (get msg ''mission'')
        else if truthy (get msg ''node_id'') then applyTelemetry s msg
        else s)
   \<and> app_onmessage a None = a\<lparr>err := Some SyntaxError\<rparr>
   \<and> app_classify msg =
       (if get msg ''type'' = JStr ''snapshot''
          then AppSnapshot (if truthy (get msg ''nodes'') then get msg ''nodes'' else JArr [])
        else if get msg ''type'' = JStr ''mission_update''
          then AppMission (if truthy (get msg ''mission'') then get msg ''mission'' else JNull)
        else AppDelta msg)
   \<and> app_onmessage a (Some msg) =
       (if get msg ''type'' = JStr ''snapshot''
          then (case setSnapshot a (if truthy (get msg ''nodes'') then get msg ''nodes'' else JArr []) of
                  Inl e \<Rightarrow> a\<lparr>err := Some e\<rparr>
                | Inr b \<Rightarrow> b)
        else if get msg ''type'' = JStr ''mission_update''
          then a\<lparr>mission := (if truthy (get msg ''mission'') then get msg ''mission'' else JNull)\<rparr>
        else if truthy (get msg ''node_id'')
          then a\<lparr>byId := map_set (byId a) (get msg ''node_id'') msg,
                 nodes := map_values (map_set (byId a) (get msg ''node_id'') msg)\<rparr>
        else a)"
proof (intro conjI)
  show "ws_onmessage s None = s"
    by (simp add: ws_onmessage_def)
  show "classify msg =
       (if get msg ''type'' = JStr ''snapshot'' \<and> isArray (get msg ''nodes'')
          then ToSnapshot (elems (get msg ''nodes''))
        else if get msg ''type'' = JStr ''mission_update'' \<and> truthy (get msg ''mission'')
          then ToMission (get msg ''mission'')
        else if truthy (get msg ''node_id'') then ToDelta msg
        else Ignored)"
    by (rule classify_eq)
  show "ws_onmessage s (Some msg) =
       (if get msg ''type'' = JStr ''snapshot'' \<and> isArray (get msg ''nodes'')
          then foldl applyTelemetry s (elems (get msg ''nodes''))
        else if get msg ''type'' = JStr ''mission_update'' \<and> truthy (get msg ''mission'')
          then drawMissionOverlay s (get msg ''mission'')
        else if truthy (get msg ''node_id'') then applyTelemetry s msg
        else s)"
    by (simp add: ws_onmessage_def classify_eq)
  show "app_onmessage a None = a\<lparr>err := Some SyntaxError\<rparr>"
    by (simp add: app_onmessage_def)
  show "app_classify msg =
       (if get msg ''type'' = JStr ''snapshot''
          then AppSnapshot (if truthy (get msg ''nodes'') then get msg ''nodes'' else JArr [])
        else if get msg ''type'' = JStr ''mission_update''
          then AppMission (if truthy (get msg ''mission'') then get msg ''mission'' else JNull)
        else AppDelta msg)"
    by (rule app_classify_eq)
  show "app_onmessage a (Some msg) =
       (if get msg ''type'' = JStr ''snapshot''
          then (case setSnapshot a (if truthy (get msg ''nodes'') then get msg ''nodes'' else JArr []) of
                  Inl e \<Rightarrow> a\<lparr>err := Some e\<rparr>
                | Inr b \<Rightarrow> b)
        else if get msg ''type'' = JStr ''mission_update''
          then a\<lparr>mission := (if truthy (get msg ''mission'') then get msg ''mission'' else JNull)\<rparr>
        else if truthy (get msg ''node_id'')
          then a\<lparr>byId := map_set (byId a) (get msg ''node_id'') msg,
                 nodes := map_values (map_set (byId a) (get msg ''node_id'') msg)\<rparr>
        else a)"
    by (simp add: app_onmessage_def app_classify_eq upsertNode_def Let_def)
qed

theorem frame_classification_witness:
  "classify (JObj [(''type'', JStr ''snapshot''), (''nodes'', JArr []), (''node_id'', JStr ''A'')])
     = ToSnapshot []
   \<and> classify (JObj [(''type'', JStr ''mission_update''), (''mission'', JObj []),
                     (''node_id'', JStr ''A'')])
     = ToMission (JObj [])
   \<and> ws_onmessage fm_init (Some (JObj [(''hello'', JNum 1)])) = fm_init
   \<and> app_onmessage app_init (Some (JObj [(''hello'', JNum 1)])) = app_init
   \<and> classify (JObj [(''type'', JStr ''status''), (''node_id'', JStr ''A'')])
     = ToDelta (JObj [(''type'', JStr ''status''), (''node_id'', JStr ''A'')])
   \<and> drones (ws_onmessage fm_init (Some (JObj [(''type'', JStr ''status''), (''node_id'', JStr ''A'')])))
     = [(JStr ''A'', JObj [(''type'', JStr ''status''), (''node_id'', JStr ''A'')])]
   \<and> byId (app_onmessage app_init (Some (JObj [(''type'', JStr ''status''), (''node_id'', JStr ''A'')])))
     = [(JStr ''A'', JObj [(''type'', JStr ''status''), (''node_id'', JStr ''A'')])]"
proof -
  define m1 where "m1 = JObj [(''type'', JStr ''snapshot''), (''nodes'', JArr []), (''node_id'', JStr ''A'')]"
  define m2 where "m2 = JObj [(''type'', JStr ''mission_update''), (''mission'', JObj []),
                     (''node_id'', JStr ''A'')]"
  define m3 where "m3 = JObj [(''hello'', JNum 1)]"
  define m4 where "m4 = JObj [(''type'', JStr ''status''), (''node_id'', JStr ''A'')]"
  have h1: "get m1 ''type'' = JStr ''snapshot''" "get m1 ''nodes'' = JArr []"
    by (simp_all add: m1_def)
  have h2: "get m2 ''type'' = JStr ''mission_update''" "get m2 ''mission'' = JObj []"
    by (simp_all add: m2_def)
  have h3: "get m3 ''type'' = JUndefined" "get m3 ''node_id'' = JUndefined"
    by (simp_all add: m3_def)
  have h4: "get m4 ''type'' = JStr ''status''" "get m4 ''node_id'' = JStr ''A''"
    by (simp_all add: m4_def)
  from frame_classification [of fm_init m1 app_init] h1
  have 1: "classify m1 = ToSnapshot []" by simp
  from frame_classification [of fm_init m2 app_init] h2
  have 2: "classify m2 = ToMission (JObj [])" by simp
  from frame_classification [of fm_init m3 app_init] h3
  have 3: "ws_onmessage fm_init (Some m3) = fm_init" "app_onmessage app_init (Some m3) = app_init"
    by simp_all
  from frame_classification [of fm_init m4 app_init] h4
  have 4: "classify m4 = ToDelta m4" "ws_onmessage fm_init (Some m4) = applyTelemetry fm_init m4"
    "byId (app_onmessage app_init (Some m4)) = map_set (byId app_init) (JStr ''A'') m4"
    by simp_all
  have 5: "drones (applyTelemetry fm_init m4) = [(JStr ''A'', m4)]"
    "map_set (byId app_init) (JStr ''A'') m4 = [(JStr ''A'', m4)]"
    by (simp_all add: applyTelemetry_drones m4_def fm_init_def app_init_def)
  from 1 2 3 4 5 show ?thesis
    unfolding m1_def m2_def m3_def m4_def by simp
qed

text \<open>
  The map client routes a message of type snapshot that has an identifier and no array of
  nodes as a delta and stores it; the dashboard reports a frame that does not parse.
\<close>

theorem typed_frame_routed_as_delta:
  "classify (JObj [(''type'', JStr ''snapshot''), (''node_id'', JStr ''A'')])
     = ToDelta (JObj [(''type'', JStr ''snapshot''), (''node_id'', JStr ''A'')])
   \<and> drones (ws_onmessage fm_init (Some (JObj [(''type'', JStr ''snapshot''), (''node_id'', JStr ''A'')])))
     = [(JStr ''A'', JObj [(''type'', JStr ''snapshot''), (''node_id'', JStr ''A'')])]
   \<and> err app_init = None
   \<and> err (app_onmessage app_init None) = Some SyntaxError"
  by (simp add: classify_def ws_onmessage_def applyTelemetry_def resolve_latlng_def fm_init_def
      app_init_def app_onmessage_def)

text \<open>
  Claim C10, as the code has it.  In the map client a message of type mission_update whose
  mission is absent or falsy, and a message of type snapshot whose nodes value is not an
  array, take neither typed branch: the message is handed to \<^verbatim>\<open>applyTelemetry\<close> when its
  identifier is truthy and is ignored otherwise.  In the dashboard the mission branch fires
  for every message of type mission_update: the mission becomes the payload, or \<^verbatim>\<open>null\<close>
  when it is absent or falsy, and the message is never applied as a delta.
\<close>

theorem malformed_typed_frame_falls_through:
  "((get msg ''type'' = JStr ''mission_update'' \<and> \<not> truthy (get msg ''mission''))
      \<or> (get msg ''type'' = JStr ''snapshot'' \<and> \<not> isArray (get msg ''nodes'')) \<longrightarrow>
        classify msg = (if truthy (get msg ''node_id'') then ToDelta msg else Ignored)
        \<and> ws_onmessage s (Some msg) = applyTelemetry s msg)
   \<and> (get msg ''type'' = JStr ''mission_update'' \<longrightarrow>
        app_classify msg =
          AppMission (if truthy (get msg ''mission'') then get msg ''mission'' else JNull)
        \<and> app_onmessage a (Some msg) =
            a\<lparr>mission := (if truthy (get msg ''mission'') then get msg ''mission'' else JNull)\<rparr>)"
proof (intro conjI impI)
  assume h: "(get msg ''type'' = JStr ''mission_update'' \<and> \<not> truthy (get msg ''mission''))
      \<or> (get msg ''type'' = JStr ''snapshot'' \<and> \<not> isArray (get msg ''nodes''))"
  then have "get msg ''type'' \<noteq> JUndefined" by auto
  then have t: "truthy msg" by (rule get_truthy)
  show c: "classify msg = (if truthy (get msg ''node_id'') then ToDelta msg else Ignored)"
    using h t by (auto simp: classify_def)
  show "ws_onmessage s (Some msg) = applyTelemetry s msg"
    by (simp add: ws_onmessage_def c applyTelemetry_no_id)
next
  assume h: "get msg ''type'' = JStr ''mission_update''"
  then have "get msg ''type'' \<noteq> JUndefined" by simp
  then have t: "truthy msg" by (rule get_truthy)
  show c: "app_classify msg =
          AppMission (if truthy (get msg ''mission'') then get msg ''mission'' else JNull)"
    using h t by (simp add: app_classify_def)
  show "app_onmessage a (Some msg) =
            a\<lparr>mission := (if truthy (get msg ''mission'') then get msg ''mission'' else JNull)\<rparr>"
    by (simp add: app_onmessage_def c)
qed

theorem malformed_typed_frame_falls_through_witness:
  "drones (ws_onmessage fm_init
      (Some (JObj [(''type'', JStr ''mission_update''), (''node_id'', JStr ''A'')])))
     = [(JStr ''A'', JObj [(''type'', JStr ''mission_update''), (''node_id'', JStr ''A'')])]
   \<and> drones (ws_onmessage fm_init
      (Some (JObj [(''type'', JStr ''snapshot''), (''nodes'', JStr ''none''), (''node_id'', JStr ''A'')])))
     = [(JStr ''A'', JObj [(''type'', JStr ''snapshot''), (''nodes'', JStr ''none''), (''node_id'', JStr ''A'')])]
   \<and> app_onmessage (app_init\<lparr>mission := JObj [(''id'', JStr ''M1'')]\<rparr>)
      (Some (JObj [(''type'', JStr ''mission_update''), (''node_id'', JStr ''A'')]))
     = app_init"
proof -
  define m1 where "m1 = JObj [(''type'', JStr ''mission_update''), (''node_id'', JStr ''A'')]"
  define m2 where "m2 = JObj [(''type'', JStr ''snapshot''), (''nodes'', JStr ''none''), (''node_id'', JStr ''A'')]"
  have h1: "get m1 ''type'' = JStr ''mission_update'' \<and> \<not> truthy (get m1 ''mission'')"
    by (simp add: m1_def)
  have h2: "get m2 ''type'' = JStr ''snapshot'' \<and> \<not> isArray (get m2 ''nodes'')"
    by (simp add: m2_def)
  have a1: "drones (applyTelemetry fm_init m1) = [(JStr ''A'', m1)]"
    by (simp add: applyTelemetry_drones m1_def fm_init_def)
  have a2: "drones (applyTelemetry fm_init m2) = [(JStr ''A'', m2)]"
    by (simp add: applyTelemetry_drones m2_def fm_init_def)
  from malformed_typed_frame_falls_through [of m1 fm_init app_init] h1 a1
  have 1: "drones (ws_onmessage fm_init (Some m1)) = [(JStr ''A'', m1)]" by simp
  from malformed_typed_frame_falls_through [of m2 fm_init app_init] h2 a2
  have 2: "drones (ws_onmessage fm_init (Some m2)) = [(JStr ''A'', m2)]" by simp
  define V where "V = app_init\<lparr>mission := JObj [(''id'', JStr ''M1'')]\<rparr>"
  have h3: "get m1 ''type'' = JStr ''mission_update''" "\<not> truthy (get m1 ''mission'')"
    by (simp_all add: m1_def)
  from malformed_typed_frame_falls_through [of m1 fm_init V] h3
  have "app_onmessage V (Some m1) = V\<lparr>mission := JNull\<rparr>" by simp
  then have 3: "app_onmessage V (Some m1) = app_init"
    by (simp add: V_def app_init_def)
  from 1 2 3 show ?thesis
    unfolding m1_def m2_def V_def by simp
qed

text \<open>
  In the dashboard a message of type mission_update with an identifier and no mission sets
  the mission to \<^verbatim>\<open>null\<close> and stores nothing, where \<^verbatim>\<open>upsertNode\<close> would have stored it.
\<close>

theorem dashboard_mission_update_not_delta:
  "app_classify (JObj [(''type'', JStr ''mission_update''), (''node_id'', JStr ''A'')])
     = AppMission JNull
   \<and> byId (app_onmessage app_init
        (Some (JObj [(''type'', JStr ''mission_update''), (''node_id'', JStr ''A'')]))) = []
   \<and> byId (upsertNode app_init (JObj [(''type'', JStr ''mission_update''), (''node_id'', JStr ''A'')]))
     = [(JStr ''A'', JObj [(''type'', JStr ''mission_update''), (''node_id'', JStr ''A'')])]"
  by (simp add: app_classify_def app_onmessage_def app_init_def upsertNode_def Let_def)

section \<open>Reconnection\<close>

lemma remove_due_None: "\<forall>t \<in> set ts. 0 < t \<Longrightarrow> remove_due ts = None"
  by (induction ts) simp_all

lemma remove_due_length: "remove_due ts = Some ts' \<Longrightarrow> Suc (length ts') = length ts"
  by (induction ts arbitrary: ts') (auto split: if_splits)

lemma conn_step_sockets:
  assumes "\<forall>t \<in> set (timers c). 0 < t"
  shows "sockets (conn_step c ev) = sockets c"
proof (cases ev)
  case (Fire ok)
  with remove_due_None [OF assms] show ?thesis by simp
qed (simp_all add: ws_onopen_def ws_onerror_def ws_onclose_def)

lemma conn_step_timers:
  assumes "\<forall>t \<in> set (timers c). r \<le> t" and "0 < r" and "r \<le> 1500"
  shows "\<forall>t \<in> set (timers (conn_step c ev)). r - elapsed [ev] \<le> t"
proof (cases ev)
  case (Fire ok)
  have "\<forall>t \<in> set (timers c). 0 < t" using assms by auto
  from remove_due_None [OF this] Fire assms show ?thesis by simp
next
  case (Elapse d)
  with assms show ?thesis by auto
qed (use assms in \<open>auto simp: ws_onopen_def ws_onerror_def ws_onclose_def\<close>)

lemma elapsed_Cons: "elapsed (ev # evs) = elapsed [ev] + elapsed evs"
  by (cases ev) simp_all

lemma closes_Cons: "closes (ev # evs) = closes [ev] + closes evs"
  by (cases ev) simp_all

lemma conn_run_sockets:
  "\<forall>t \<in> set (timers c). r \<le> t \<Longrightarrow> r \<le> 1500 \<Longrightarrow> elapsed evs < r \<Longrightarrow>
     sockets (conn_run c evs) = sockets c"
  unfolding conn_run_def
proof (induction evs arbitrary: c r)
  case Nil
  show ?case by simp
next
  case (Cons ev evs)
  from Cons.prems have pos: "0 < r" by simp
  from Cons.prems have e: "elapsed [ev] + elapsed evs < r"
    by (simp add: elapsed_Cons [of ev evs])
  have t: "\<forall>t \<in> set (timers (conn_step c ev)). r - elapsed [ev] \<le> t"
    using Cons.prems(1) pos Cons.prems(2) by (rule conn_step_timers)
  have "\<forall>t \<in> set (timers c). 0 < t" using Cons.prems(1) pos by auto
  then have s: "sockets (conn_step c ev) = sockets c" by (rule conn_step_sockets)
  have "sockets (foldl conn_step (conn_step c ev) evs) = sockets (conn_step c ev)"
    using t
  proof (rule Cons.IH)
    show "r - elapsed [ev] \<le> 1500" using Cons.prems(2) by simp
    show "elapsed evs < r - elapsed [ev]" using e by simp
  qed
  with s show ?case by simp
qed

text \<open>Every socket constructed after start-up uses up one pending timer.\<close>

lemma conn_step_budget:
  "sockets (conn_step c ev) + length (timers (conn_step c ev))
     \<le> sockets c + length (timers c) + closes [ev]"
proof (cases ev)
  case (Fire ok)
  show ?thesis
  proof (cases "remove_due (timers c)")
    case None
    with Fire show ?thesis by simp
  next
    case (Some ts)
    from remove_due_length [OF Some] Fire Some show ?thesis
      by (simp add: connectWs_def)
  qed
qed (simp_all add: ws_onopen_def ws_onerror_def ws_onclose_def)

lemma conn_run_budget:
  "sockets (conn_run c evs) + length (timers (conn_run c evs))
     \<le> sockets c + length (timers c) + closes evs"
  unfolding conn_run_def
proof (induction evs arbitrary: c)
  case Nil
  show ?case by simp
next
  case (Cons ev evs)
  from Cons [of "conn_step c ev"] conn_step_budget [of c ev]
  show ?case by (simp add: closes_Cons [of ev evs])
qed

lemma one_under_way: "n + length xs \<le> 1 \<Longrightarrow> 0 < n \<Longrightarrow> xs = [] \<and> n = 1"
  by (cases xs) auto

text \<open>In a session at most one thing is under way: a live socket or a pending reconnect.\<close>

lemma session_one:
  "session c n evs \<Longrightarrow> n + length (timers c) \<le> 1 \<Longrightarrow>
     (\<exists>n'. n' + length (timers (conn_run c evs)) \<le> 1
           \<and> (\<forall>more. session c n (evs @ more) = session (conn_run c evs) n' more))"
proof (induction evs arbitrary: c n)
  case Nil
  then show ?case by (auto simp: conn_run_def)
next
  case (Cons ev evs)
  have step: "live_after c n ev + length (timers (conn_step c ev)) \<le> 1"
  proof (cases ev)
    case (Fire ok)
    show ?thesis
    proof (cases "remove_due (timers c)")
      case None
      with Fire Cons.prems show ?thesis by simp
    next
      case (Some ts)
      from remove_due_length [OF Some] Cons.prems(2) have "n + length ts = 0" by arith
      then have "n = 0" "ts = []" by simp_all
      with Fire Some show ?thesis by (simp add: connectWs_def)
    qed
  next
    case Close
    with Cons.prems have "0 < n" by simp
    from one_under_way [OF Cons.prems(2) this] Close show ?thesis
      by (simp add: ws_onclose_def)
  next
    case Failed
    with Cons.prems have "0 < n" by simp
    from one_under_way [OF Cons.prems(2) this] Failed show ?thesis
      by (simp add: ws_onclose_def ws_onerror_def)
  next
    case Open
    with Cons.prems show ?thesis by (simp add: ws_onopen_def)
  next
    case (Elapse d)
    with Cons.prems show ?thesis by simp
  qed
  from Cons.prems(1) have "session (conn_step c ev) (live_after c n ev) evs" by simp
  from Cons.IH [OF this step] obtain n'
    where n': "n' + length (timers (conn_run (conn_step c ev) evs)) \<le> 1"
      and m: "\<forall>more. session (conn_step c ev) (live_after c n ev) (evs @ more)
                = session (conn_run (conn_step c ev) evs) n' more"
    by blast
  have r: "conn_run c (ev # evs) = conn_run (conn_step c ev) evs"
    by (simp add: conn_run_def)
  have "\<forall>more. session c n ((ev # evs) @ more) = session (conn_run c (ev # evs)) n' more"
    using m Cons.prems(1) by (simp add: r)
  with n' show ?case unfolding r by blast
qed

lemma session_close_no_timer:
  assumes s: "session (boot ok) (boot_live ok) (evs1 @ ev # evs2)"
    and ev: "ev = Close \<or> ev = Failed"
  shows "timers (conn_run (boot ok) evs1) = []"
proof -
  have b: "boot_live ok + length (timers (boot ok)) \<le> 1"
    by (simp add: boot_def boot_live_def connectWs_def conn_init_def)
  have p: "session (boot ok) (boot_live ok) evs1"
    using s
  proof (induction evs1 arbitrary: ok rule: rev_induct)
    case Nil
    show ?case by simp
  next
    case (snoc x xs)
    have "session c n (ys @ zs) \<Longrightarrow> session c n ys" for c n ys zs
      by (induction ys arbitrary: c n) auto
    from this [of "boot ok" "boot_live ok" "xs @ [x]" "ev # evs2"] snoc.prems
    show ?case by simp
  qed
  from session_one [OF p b] obtain n'
    where n': "n' + length (timers (conn_run (boot ok) evs1)) \<le> 1"
      and m: "\<forall>more. session (boot ok) (boot_live ok) (evs1 @ more)
                = session (conn_run (boot ok) evs1) n' more"
    by blast
  from m s have "session (conn_run (boot ok) evs1) n' (ev # evs2)" by simp
  with ev have "0 < n'" by auto
  with n' show ?thesis by (simp add: one_under_way)
qed

text \<open>
  Claim C5.  After a close of the stream connection, clean or by an error, exactly one
  \<^verbatim>\<open>connectWs\<close> is scheduled, 1500 ms ahead, and the handlers construct no socket themselves
  (the error handler sets the status only, so a failure does not schedule twice).  The runtime
  runs a timer no sooner than its delay: while less time has elapsed than every pending timer
  has left, the number of sockets is unchanged.  So, with no timer pending at the close, no
  socket is constructed during the 1500 ms that follow it; the timer that runs after them
  constructs one socket and is gone; and until the next close no more than that one socket is
  constructed.  In every run a browser can produce from start-up no timer is pending when a
  socket closes, so there the timer of the close is the only one and no socket is constructed
  before 1500 ms have elapsed since the close.
\<close>

theorem reconnect_after_close:
  "timers (conn_step c Close) = timers c @ [1500]
   \<and> sockets (conn_step c Close) = sockets c
   \<and> timers (conn_step c Failed) = timers c @ [1500]
   \<and> sockets (conn_step c Failed) = sockets c
   \<and> ((\<forall>t \<in> set (timers c). r \<le> t) \<and> r \<le> 1500 \<and> elapsed evs < r \<longrightarrow>
        sockets (conn_run c evs) = sockets c)
   \<and> (timers c = [] \<and> (ev = Close \<or> ev = Failed) \<and> elapsed evs < 1500 \<longrightarrow>
        sockets (conn_run (conn_step c ev) evs) = sockets c)
   \<and> (timers c = [] \<and> (ev = Close \<or> ev = Failed) \<longrightarrow>
        conn_run (conn_step c ev) [Elapse 1500, Fire True]
          = c\<lparr>hudStatus := WS_CONNECTING, sockets := Suc (sockets c)\<rparr>)
   \<and> (timers c = [] \<and> (ev = Close \<or> ev = Failed) \<and> closes evs = 0 \<longrightarrow>
        sockets (conn_run (conn_step c ev) evs) \<le> Suc (sockets c))
   \<and> (session (boot ok) (boot_live ok) (evs1 @ ev # evs2) \<and> (ev = Close \<or> ev = Failed) \<longrightarrow>
        timers (conn_run (boot ok) (evs1 @ [ev])) = [1500]
        \<and> sockets (conn_run (boot ok) (evs1 @ [ev])) = sockets (conn_run (boot ok) evs1)
        \<and> (elapsed evs2 < 1500 \<longrightarrow>
              sockets (conn_run (boot ok) (evs1 @ ev # evs2)) = sockets (conn_run (boot ok) evs1)))"
proof (intro conjI impI)
  assume h: "session (boot ok) (boot_live ok) (evs1 @ ev # evs2) \<and> (ev = Close \<or> ev = Failed)"
  let ?c = "conn_run (boot ok) evs1"
  from h have t: "timers ?c = []"
    by (blast intro: session_close_no_timer)
  have a: "conn_run (boot ok) (evs1 @ ev # evs2) = conn_run (conn_step ?c ev) evs2"
    "conn_run (boot ok) (evs1 @ [ev]) = conn_step ?c ev"
    by (simp_all add: conn_run_def)
  show "timers (conn_run (boot ok) (evs1 @ [ev])) = [1500]"
    unfolding a using h t by (auto simp: ws_onclose_def ws_onerror_def)
  show "sockets (conn_run (boot ok) (evs1 @ [ev])) = sockets ?c"
    unfolding a using h by (auto simp: ws_onclose_def ws_onerror_def)
  show "sockets (conn_run (boot ok) (evs1 @ ev # evs2)) = sockets ?c" if e: "elapsed evs2 < 1500"
  proof -
    have "\<forall>t \<in> set (timers (conn_step ?c ev)). 1500 \<le> t"
      using h t by (auto simp: ws_onclose_def ws_onerror_def)
    then have "sockets (conn_run (conn_step ?c ev) evs2) = sockets (conn_step ?c ev)"
      using e by (blast intro: conn_run_sockets)
    then show ?thesis
      unfolding a using h by (auto simp: ws_onclose_def ws_onerror_def)
  qed
next
  show "sockets (conn_run c evs) = sockets c"
    if "(\<forall>t \<in> set (timers c). r \<le> t) \<and> r \<le> 1500 \<and> elapsed evs < r"
    using that by (blast intro: conn_run_sockets)
  show "sockets (conn_run (conn_step c ev) evs) = sockets c"
    if h: "timers c = [] \<and> (ev = Close \<or> ev = Failed) \<and> elapsed evs < 1500"
  proof -
    have "\<forall>t \<in> set (timers (conn_step c ev)). 1500 \<le> t"
      using h by (auto simp: ws_onclose_def ws_onerror_def)
    then have "sockets (conn_run (conn_step c ev) evs) = sockets (conn_step c ev)"
      using h by (blast intro: conn_run_sockets)
    then show ?thesis
      using h by (auto simp: ws_onclose_def ws_onerror_def)
  qed
  show "conn_run (conn_step c ev) [Elapse 1500, Fire True]
          = c\<lparr>hudStatus := WS_CONNECTING, sockets := Suc (sockets c)\<rparr>"
    if "timers c = [] \<and> (ev = Close \<or> ev = Failed)"
    using that by (auto simp: conn_run_def ws_onclose_def ws_onerror_def connectWs_def)
  show "sockets (conn_run (conn_step c ev) evs) \<le> Suc (sockets c)"
    if h: "timers c = [] \<and> (ev = Close \<or> ev = Failed) \<and> closes evs = 0"
  proof -
    have "sockets (conn_step c ev) + length (timers (conn_step c ev)) = Suc (sockets c)"
      using h by (auto simp: ws_onclose_def ws_onerror_def)
    with conn_run_budget [of "conn_step c ev" evs] h show ?thesis
      by simp
  qed
qed (simp_all add: ws_onclose_def ws_onerror_def)

theorem reconnect_after_close_witness:
  "sockets (conn_run (connectWs True conn_init)
      [Failed, Elapse 700, Fire True, Elapse 799, Fire True, Open]) = 1
   \<and> sockets (conn_run (connectWs True conn_init)
      [Failed, Elapse 700, Fire True, Elapse 799, Fire True, Open, Elapse 1, Fire True,
       Fire True, Elapse 5000, Fire True]) = 2
   \<and> conn_run (connectWs True conn_init) [Close, Elapse 1500, Fire True]
     = \<lparr>hudStatus = WS_CONNECTING, sockets = 2, timers = []\<rparr>
   \<and> sockets (conn_run \<lparr>hudStatus = WS_CLOSED_RETRY, sockets = 1, timers = [900]\<rparr>
      [Elapse 899, Fire True, Close, Fire True]) = 1
   \<and> sockets (conn_run (boot True)
      ([Open, Elapse 60000] @ Failed # [Elapse 1499, Fire True])) = 1
   \<and> sockets (conn_run (boot True)
      [Open, Elapse 60000, Failed, Elapse 1499, Fire True, Elapse 1, Fire True]) = 2"
proof -
  have ses: "session (boot True) (boot_live True) ([Open, Elapse 60000] @ Failed # [Elapse 1499, Fire True])"
    by (simp add: boot_def boot_live_def connectWs_def conn_init_def ws_onopen_def
        ws_onclose_def ws_onerror_def)
  have el: "elapsed [Elapse 1499, Fire True] < 1500"
    by simp
  have before: "sockets (conn_run (boot True) [Open, Elapse 60000]) = 1"
    by (simp add: boot_def conn_run_def connectWs_def conn_init_def ws_onopen_def)
  from reconnect_after_close [where ok = True and ?evs1.0 = "[Open, Elapse 60000]" and ev = Failed
      and ?evs2.0 = "[Elapse 1499, Fire True]" and c = conn_init and r = 0 and evs = "[]"]
    ses el before
  have s1: "sockets (conn_run (boot True) ([Open, Elapse 60000] @ Failed # [Elapse 1499, Fire True])) = 1"
    by simp
  have s2: "sockets (conn_run (boot True)
      [Open, Elapse 60000, Failed, Elapse 1499, Fire True, Elapse 1, Fire True]) = 2"
    by (simp add: boot_def conn_run_def connectWs_def conn_init_def ws_onopen_def
        ws_onclose_def ws_onerror_def)
  define c where "c = connectWs True conn_init"
  define evs where "evs = [Elapse 700, Fire True, Elapse 799, Fire True, Open]"
  define more where "more = [Elapse 700, Fire True, Elapse 799, Fire True, Open, Elapse 1,
       Fire True, Fire True, Elapse 5000, Fire True]"
  have c: "timers c = []" "sockets c = 1" "c = \<lparr>hudStatus = WS_CONNECTING, sockets = 1, timers = []\<rparr>"
    by (simp_all add: c_def connectWs_def conn_init_def)
  have e: "elapsed evs < 1500" "closes more = 0"
    by (simp_all add: evs_def more_def)
  from reconnect_after_close [of c 0 evs Failed True "[]" "[]"] c(1,2) e
  have 1: "sockets (conn_run (conn_step c Failed) evs) = 1"
    by simp
  from reconnect_after_close [of c 0 "[]" Close True "[]" "[]"] c(1)
  have 2: "conn_run (conn_step c Close) [Elapse 1500, Fire True]
       = c\<lparr>hudStatus := WS_CONNECTING, sockets := Suc (sockets c)\<rparr>"
    by simp
  from reconnect_after_close [of c 0 more Failed True "[]" "[]"] c(1,2) e
  have 3: "sockets (conn_run (conn_step c Failed) more) \<le> 2"
    by simp
  have 4: "sockets (conn_run (conn_step c Failed) more) = 2"
    by (simp add: more_def c(3) conn_run_def ws_onclose_def ws_onerror_def ws_onopen_def
        connectWs_def)
  define d where "d = \<lparr>hudStatus = WS_CLOSED_RETRY, sockets = 1, timers = [900]\<rparr>"
  have p: "\<forall>t \<in> set (timers d). 900 \<le> t" "sockets d = 1"
    by (simp_all add: d_def)
  have q: "elapsed [Elapse 899, Fire True, Close, Fire True] < 900"
    by simp
  from reconnect_after_close [of d 900 "[Elapse 899, Fire True, Close, Fire True]" Close True "[]" "[]"] p q
  have 5: "sockets (conn_run d [Elapse 899, Fire True, Close, Fire True]) = 1"
    by simp
  have run: "conn_run c (ev # rest) = conn_run (conn_step c ev) rest" for ev rest
    by (simp add: conn_run_def)
  have a: "sockets (conn_run c (Failed # evs)) = 1"
    using 1 by (simp only: run)
  have b: "sockets (conn_run c (Failed # more)) = 2"
    using 4 by (simp only: run)
  have "conn_run c (Close # [Elapse 1500, Fire True])
          = c\<lparr>hudStatus := WS_CONNECTING, sockets := Suc (sockets c)\<rparr>"
    using 2 by (simp only: run)
  then have g: "conn_run c [Close, Elapse 1500, Fire True]
          = \<lparr>hudStatus = WS_CONNECTING, sockets = 2, timers = []\<rparr>"
    by (simp add: c(3))
  from a b g 3 5 s1 s2 show ?thesis
    unfolding c_def evs_def more_def d_def by simp
qed

end
